theory Spec2Isabelle
  imports
    Main
    "HOL-Library.Char_ord"
    "HOL-Library.List_Lexorder"
    "HOL-Library.Product_Lexorder"
begin

section \<open>Python strings\<close>

text \<open>
  A Python \<open>str\<close> is modelled as a \<open>string\<close> whose characters are the code points
  below 256; the order on strings is the lexicographic order on code points, as Python's.
  The character classes below are those of Python 3 restricted to that range.
\<close>

abbreviation LF :: char where "LF \<equiv> CHR 0x0A"
abbreviation CR :: char where "CR \<equiv> CHR 0x0D"

definition isspace :: "char \<Rightarrow> bool" where
  \<comment> \<open>\<open>str.isspace\<close>, the characters that \<open>str.strip()\<close> removes\<close>
  "isspace c = (let n = (of_char c :: nat) in
     (9 \<le> n \<and> n \<le> 13) \<or> (28 \<le> n \<and> n \<le> 32) \<or> n = 133 \<or> n = 160)"

definition is_decimal :: "char \<Rightarrow> bool" where
  \<comment> \<open>the decimal digits: what \<open>\\d\<close> matches and what \<open>int()\<close> reads\<close>
  "is_decimal c = (let n = (of_char c :: nat) in 48 \<le> n \<and> n \<le> 57)"

definition isdigit_char :: "char \<Rightarrow> bool" where
  \<comment> \<open>\<open>str.isdigit\<close> also accepts the superscripts two, three and one\<close>
  "isdigit_char c = (let n = (of_char c :: nat) in
     (48 \<le> n \<and> n \<le> 57) \<or> n = 178 \<or> n = 179 \<or> n = 185)"

definition isdigit :: "string \<Rightarrow> bool" where
  "isdigit s = (s \<noteq> [] \<and> list_all isdigit_char s)"

definition lower_char :: "char \<Rightarrow> char" where
  "lower_char c = (let n = (of_char c :: nat) in
     if (65 \<le> n \<and> n \<le> 90) \<or> (192 \<le> n \<and> n \<le> 222 \<and> n \<noteq> 215)
     then char_of (n + 32) else c)"

definition lower :: "string \<Rightarrow> string" where
  "lower s = map lower_char s"

definition strip :: "string \<Rightarrow> string" where
  "strip s = rev (dropWhile isspace (rev (dropWhile isspace s)))"

definition startswith :: "string \<Rightarrow> string \<Rightarrow> bool" where
  "startswith s p = (take (length p) s = p)"

definition endswith :: "string \<Rightarrow> string \<Rightarrow> bool" where
  "endswith s p = (length p \<le> length s \<and> drop (length s - length p) s = p)"

fun contains :: "string \<Rightarrow> string \<Rightarrow> bool" where
  \<comment> \<open>\<open>p in s\<close>\<close>
  "contains [] p = (p = [])"
| "contains (c # cs) p = (startswith (c # cs) p \<or> contains cs p)"

definition replace_char :: "char \<Rightarrow> string \<Rightarrow> string" where
  \<comment> \<open>\<open>s.replace(c, '')\<close> for a one-character \<open>c\<close>\<close>
  "replace_char c s = filter (\<lambda>d. d \<noteq> c) s"

fun split_go :: "string \<Rightarrow> nat \<Rightarrow> string \<Rightarrow> string \<Rightarrow> string list" where
  \<comment> \<open>\<open>k\<close> characters of a separator just matched are still to be skipped;
      \<open>acc\<close> is the current piece, reversed\<close>
  "split_go sep k acc [] = [rev acc]"
| "split_go sep k acc (c # cs) =
     (if 0 < k then split_go sep (k - 1) acc cs
      else if startswith (c # cs) sep then rev acc # split_go sep (length sep - 1) [] cs
      else split_go sep 0 (c # acc) cs)"

definition split :: "string \<Rightarrow> string \<Rightarrow> string list" where
  \<comment> \<open>\<open>s.split(sep)\<close> for a non-empty \<open>sep\<close>: cut at the occurrences found left to right\<close>
  "split s sep = split_go sep 0 [] s"

subsection \<open>int()\<close>

definition int_space :: "char \<Rightarrow> bool" where
  \<comment> \<open>the white space \<open>int()\<close> skips at both ends (not the separators 28..31)\<close>
  "int_space c = (let n = (of_char c :: nat) in
     (9 \<le> n \<and> n \<le> 13) \<or> n = 32 \<or> n = 133 \<or> n = 160)"

fun int_body :: "bool \<Rightarrow> string \<Rightarrow> bool" where
  \<comment> \<open>digits, with single underscores between digits; the flag says that the
      previous character was a digit\<close>
  "int_body prev [] = prev"
| "int_body prev (c # cs) =
     (if is_decimal c then int_body True cs
      else if c = CHR ''_'' then prev \<and> int_body False cs
      else False)"

definition digit_val :: "char \<Rightarrow> nat" where
  "digit_val c = of_char c - 48"

definition nat_of_digits :: "string \<Rightarrow> nat" where
  "nat_of_digits ds = foldl (\<lambda>a c. 10 * a + digit_val c) 0 ds"

definition py_int :: "string \<Rightarrow> int option" where
  \<comment> \<open>\<open>int(s)\<close>; \<open>None\<close> stands for the ValueError, which is also raised on more
      than 4300 digits (the interpreter's limit on integer string conversion)\<close>
  "py_int s =
     (let t = rev (dropWhile int_space (rev (dropWhile int_space s)));
          neg = (t \<noteq> [] \<and> hd t = CHR ''-'');
          ds = (if t \<noteq> [] \<and> (hd t = CHR ''-'' \<or> hd t = CHR ''+'') then tl t else t)
      in if int_body False ds \<and> length (filter is_decimal ds) \<le> 4300
         then Some ((if neg then - 1 else 1) * int (nat_of_digits (replace_char (CHR ''_'') ds)))
         else None)"

fun digits_of :: "nat \<Rightarrow> nat \<Rightarrow> string" where
  \<comment> \<open>the decimal digits of a number, most significant first; the first argument is fuel
      that the caller sets above the number of digits\<close>
  "digits_of 0 n = []"
| "digits_of (Suc k) n =
     (if n < 10 then [char_of (48 + n)] else digits_of k (n div 10) @ [char_of (48 + n mod 10)])"

definition str_nat :: "nat \<Rightarrow> string" where
  \<comment> \<open>\<open>str(n)\<close> for a non-negative \<open>n\<close>\<close>
  "str_nat n = digits_of (Suc n) n"

definition fmt_04d :: "nat \<Rightarrow> string" where
  \<comment> \<open>\<open>f"{n:04d}"\<close> for a non-negative \<open>n\<close>: zero-padded to at least four digits\<close>
  "fmt_04d n = replicate (4 - length (str_nat n)) (CHR ''0'') @ str_nat n"

subsection \<open>os.path (POSIX)\<close>

definition join :: "string \<Rightarrow> string \<Rightarrow> string" where
  "join a b =
     (if startswith b ''/'' then b
      else if a = [] \<or> endswith a ''/'' then a @ b
      else a @ ''/'' @ b)"

definition basename_start :: "string \<Rightarrow> nat" where
  \<comment> \<open>\<open>p.rfind('/') + 1\<close>\<close>
  "basename_start p = length p - length (takeWhile (\<lambda>c. c \<noteq> CHR ''/'') (rev p))"

definition splitext :: "string \<Rightarrow> string \<times> string" where
  \<comment> \<open>cut at the last dot of the last component, unless only dots come before it\<close>
  "splitext p =
     (let b = basename_start p;
          name = drop b p;
          ext = rev (takeWhile (\<lambda>c. c \<noteq> CHR ''.'') (rev name));
          stem = take (length name - length ext - 1) name
      in if CHR ''.'' \<in> set name \<and> (\<exists>c \<in> set stem. c \<noteq> CHR ''.'')
         then (take b p @ stem, CHR ''.'' # ext)
         else (p, []))"

section \<open>What a run does to the outside world\<close>

datatype level = DEBUG | INFO | WARNING | ERROR

datatype event =
    Log level string
  | Sleep nat
  | LedgerAppended string
  | FileRemoved string
  | DirsMade string
  | Extracted string string
  | PdfSaved string "string list"
  | TreeRemoved string

section \<open>Ledger\<close>

fun universal_newlines :: "string \<Rightarrow> string" where
  \<comment> \<open>reading in text mode: CR LF and a lone CR both arrive as LF\<close>
  "universal_newlines [] = []"
| "universal_newlines [c] = [if c = CR then LF else c]"
| "universal_newlines (c # d # r) =
     (if c = CR \<and> d = LF then LF # universal_newlines r
      else if c = CR then LF # universal_newlines (d # r)
      else c # universal_newlines (d # r))"

fun file_lines :: "string \<Rightarrow> string \<Rightarrow> string list" where
  \<comment> \<open>\<open>for line in f\<close>: each line keeps its LF; a last line without one is still a line\<close>
  "file_lines acc [] = (if acc = [] then [] else [rev acc])"
| "file_lines acc (c # cs) =
     (if c = LF then rev (c # acc) # file_lines [] cs else file_lines (c # acc) cs)"

definition write_text :: "string \<Rightarrow> string \<Rightarrow> string" where
  \<comment> \<open>writing in text mode: every LF leaves as \<open>os.linesep\<close>\<close>
  "write_text linesep s = concat (map (\<lambda>c. if c = LF then linesep else [c]) s)"

definition load_processed_chapters :: "string option \<Rightarrow> string option \<Rightarrow> string set \<times> event list" where
  \<comment> \<open>the backing file (\<open>None\<close>: it does not exist) and the error its reading raises, if any\<close>
  "load_processed_chapters file read_error =
     (case file of
        None \<Rightarrow> ({}, [])
      | Some content \<Rightarrow>
          (case read_error of
             None \<Rightarrow>
               (set (map strip (filter (\<lambda>line. strip line \<noteq> [])
                      (file_lines [] (universal_newlines content)))), [])
           | Some e \<Rightarrow> ({}, [Log ERROR (''Error loading processed chapters file: '' @ e)])))"

definition save_processed_chapter ::
  "string \<Rightarrow> string option \<Rightarrow> string \<Rightarrow> string option \<Rightarrow> string option \<times> event list" where
  \<comment> \<open>\<open>linesep\<close>, the error the append raises if any, the link, the backing file;
      a failed append is taken to leave the file as it was\<close>
  "save_processed_chapter linesep write_error post_url file =
     (case write_error of
        None \<Rightarrow>
          (Some ((case file of None \<Rightarrow> [] | Some content \<Rightarrow> content)
                 @ write_text linesep (post_url @ [LF])),
           [LedgerAppended post_url,
            Log INFO (''Saved URL to processed chapters file: '' @ post_url)])
      | Some e \<Rightarrow> (file, [Log ERROR (''Error saving to processed chapters file: '' @ e)]))"

fun record_all :: "string \<Rightarrow> string list \<Rightarrow> string option \<Rightarrow> string option" where
  \<comment> \<open>a sequence of successful appends\<close>
  "record_all linesep [] file = file"
| "record_all linesep (l # ls) file =
     record_all linesep ls (fst (save_processed_chapter linesep None l file))"

section \<open>Document Assembler\<close>

datatype exn = FileNotFoundError string | TypeError string | OSError string

fun exn_text :: "exn \<Rightarrow> string" where
  \<comment> \<open>\<open>str(e)\<close>\<close>
  "exn_text (FileNotFoundError p) =
     ''[Errno 2] No such file or directory: '' @ [CHR 0x27] @ p @ [CHR 0x27]"
| "exn_text (TypeError m) = m"
| "exn_text (OSError m) = m"

text \<open>
  What a directory holds: regular files and subdirectories, in the order in which
  \<open>os.listdir\<close> returns them. A regular file carries the text of the exception that
  \<open>Image.open(path).convert('RGB')\<close> raises on it, or \<open>None\<close> when it decodes.
\<close>

datatype node = File "string option" | Dir "(string \<times> node) list"

type_synonym dir_oracle = "string \<Rightarrow> (string \<times> node) list option"

definition listdir :: "dir_oracle \<Rightarrow> string \<Rightarrow> exn + string list" where
  \<comment> \<open>\<open>os.listdir(p)\<close>: the names of the top level only; the empty path names no directory\<close>
  "listdir dir_of p =
     (if p = [] then Inl (FileNotFoundError p)
      else case dir_of p of
             None \<Rightarrow> Inl (FileNotFoundError p)
           | Some entries \<Rightarrow> Inr (map fst entries))"

definition open_image :: "dir_oracle \<Rightarrow> string \<Rightarrow> string \<Rightarrow> string option" where
  \<comment> \<open>the exception text of \<open>Image.open(path).convert('RGB')\<close>, \<open>None\<close> when it succeeds\<close>
  "open_image dir_of image_folder path =
     (case dir_of image_folder of
        None \<Rightarrow> Some (''[Errno 2] No such file or directory: '' @ path)
      | Some entries \<Rightarrow>
          (case find (\<lambda>(name, nd). join image_folder name = path) entries of
             None \<Rightarrow> Some (''[Errno 2] No such file or directory: '' @ path)
           | Some (name, File r) \<Rightarrow> r
           | Some (name, Dir sub) \<Rightarrow> Some (''[Errno 21] Is a directory: '' @ path)))"

datatype key = KTuple int int | KStr string

definition sort_key_py :: "string \<Rightarrow> key" where
  \<comment> \<open>the local function \<open>sort_key\<close> of \<open>images_to_pdf\<close>\<close>
  "sort_key_py filename =
     (let parts = split (fst (splitext filename)) ''_p''
      in if length parts = 2
         then (case py_int (replace_char (CHR ''c'') (parts ! 0)) of
                 None \<Rightarrow> KStr filename
               | Some c \<Rightarrow>
                   (case py_int (parts ! 1) of
                      None \<Rightarrow> KStr filename
                    | Some p \<Rightarrow> KTuple c p))
         else KStr filename)"

fun tuple_of :: "key \<Rightarrow> (int \<times> int) option" where
  "tuple_of (KTuple c p) = Some (c, p)"
| "tuple_of (KStr s) = None"

fun str_of :: "key \<Rightarrow> string option" where
  "str_of (KStr s) = Some s"
| "str_of (KTuple c p) = None"

definition sorted_py :: "('a \<Rightarrow> key) \<Rightarrow> 'a list \<Rightarrow> exn + 'a list" where
  \<comment> \<open>\<open>sorted(xs, key=kf)\<close>: stable and ascending; tuples compare with tuples and strings
      with strings, and a list that holds both kinds of key raises TypeError\<close>
  "sorted_py kf xs =
     (case those (map (tuple_of \<circ> kf) xs) of
        Some ts \<Rightarrow> Inr (map snd (sort_key fst (zip ts xs)))
      | None \<Rightarrow>
          (case those (map (str_of \<circ> kf) xs) of
             Some ss \<Rightarrow> Inr (map snd (sort_key fst (zip ss xs)))
           | None \<Rightarrow> Inl (TypeError ''not supported between instances of str and tuple'')))"

fun open_all :: "(string \<Rightarrow> string option) \<Rightarrow> string list \<Rightarrow> string list \<times> event list" where
  \<comment> \<open>the loop over \<open>image_paths\<close>: the images that opened, and the errors logged\<close>
  "open_all opn [] = ([], [])"
| "open_all opn (path # rest) =
     (case open_all opn rest of
        (images, evs) \<Rightarrow>
          (case opn path of
             None \<Rightarrow> (path # images, evs)
           | Some e \<Rightarrow> (images, Log ERROR (''Could not open image '' @ path @ '': '' @ e) # evs)))"

definition is_image_name :: "string \<Rightarrow> bool" where
  \<comment> \<open>\<open>f.lower().endswith(('.png', '.jpg', '.jpeg'))\<close>\<close>
  "is_image_name f =
     (endswith (lower f) ''.png'' \<or> endswith (lower f) ''.jpg'' \<or> endswith (lower f) ''.jpeg'')"

definition images_to_pdf ::
  "dir_oracle \<Rightarrow> string option \<Rightarrow> string \<Rightarrow> string \<Rightarrow> nat \<Rightarrow> (exn + bool) \<times> event list" where
  \<comment> \<open>\<open>save_error\<close>: the exception text of \<open>images[0].save\<close>, \<open>None\<close> when it succeeds.
      A document is the list of the paths of its pages.\<close>
  "images_to_pdf dir_of save_error image_folder output_pdf_path chapter_number =
     (let ev0 = [Log INFO (''Converting images in '' @ image_folder @ '' to PDF: ''
                            @ output_pdf_path)]
      in case listdir dir_of image_folder of
           Inl e \<Rightarrow> (Inl e, ev0)
         | Inr names \<Rightarrow>
             (let image_files = filter is_image_name names
              in case sorted_py sort_key_py (map (join image_folder) image_files) of
                   Inl e \<Rightarrow> (Inl e, ev0)
                 | Inr image_paths \<Rightarrow>
                     if image_paths = []
                     then (Inr False,
                           ev0 @ [Log WARNING (''No valid images found in '' @ image_folder
                                               @ '' to create PDF.'')])
                     else (case open_all (open_image dir_of image_folder) image_paths of
                             (images, evs) \<Rightarrow>
                               if images \<noteq> []
                               then (case save_error of
                                       None \<Rightarrow>
                                         (Inr True,
                                          ev0 @ evs @
                                          [PdfSaved output_pdf_path images,
                                           Log INFO (''PDF created successfully at: ''
                                                     @ output_pdf_path)])
                                     | Some e \<Rightarrow>
                                         (Inr False,
                                          ev0 @ evs @
                                          [Log ERROR (''Error saving PDF '' @ output_pdf_path
                                                      @ '': '' @ e)]))
                               else (Inr False,
                                     ev0 @ evs @
                                     [Log WARNING ''No valid images to create PDF.'']))))"

section \<open>Link Resolver\<close>

text \<open>
  The landing page as the resolver sees it: the request fails, or the page parses to the
  \<open>href\<close> values of its \<open>a\<close> elements, in document order.
\<close>

datatype http_result = RequestException string | Page "string list"

definition get_mega_file_url :: "(string \<Rightarrow> http_result) \<Rightarrow> string \<Rightarrow> string option \<times> event list" where
  "get_mega_file_url http_get post_url =
     (let ev0 = [Log INFO (''Fetching Mega.nz link from: '' @ post_url)]
      in case http_get post_url of
           RequestException e \<Rightarrow>
             (None, ev0 @ [Log ERROR (''Error fetching post '' @ post_url @ '': '' @ e)])
         | Page hrefs \<Rightarrow>
             (case filter (\<lambda>href. contains href ''mega.nz'') hrefs of
                [] \<Rightarrow> (None, ev0 @ [Log WARNING (''No Mega.nz link found on post: '' @ post_url)])
              | l # ls \<Rightarrow> (Some l, ev0 @ [Log INFO (''Found Mega.nz link: '' @ l)])))"

fun after_scheme :: "string \<Rightarrow> string" where
  "after_scheme [] = []"
| "after_scheme (c # cs) =
     (if startswith (c # cs) ''://'' then drop 3 (c # cs) else after_scheme cs)"

definition url_host :: "string \<Rightarrow> string" where
  \<comment> \<open>the spec's "target host" of an absolute URL: what stands between \<open>://\<close> and the
      path, query or fragment\<close>
  "url_host url =
     takeWhile (\<lambda>c. c \<noteq> CHR ''/'' \<and> c \<noteq> CHR ''?'' \<and> c \<noteq> CHR ''#'') (after_scheme url)"

definition host_matches :: "string \<Rightarrow> string \<Rightarrow> bool" where
  \<comment> \<open>the spec's "host matches the provider's domain": the domain itself or a subdomain\<close>
  "host_matches domain url =
     (url_host url = domain \<or> endswith (url_host url) (CHR ''.'' # domain))"

section \<open>Archive Fetcher\<close>

datatype mega_result = MegaRaises string | MegaReturns "string option"

fun max_by :: "('a \<Rightarrow> 't::linorder) \<Rightarrow> 'a \<Rightarrow> 'a list \<Rightarrow> 'a" where
  \<comment> \<open>\<open>max(b # xs, key=k)\<close>: the first of the greatest\<close>
  "max_by k b [] = b"
| "max_by k b (x # xs) = max_by k (if k b < k x then x else b) xs"

definition download_from_mega ::
  "(string \<Rightarrow> string \<Rightarrow> mega_result) \<Rightarrow> (string \<Rightarrow> bool) \<Rightarrow> dir_oracle \<Rightarrow>
   (string \<Rightarrow> 't::linorder) \<Rightarrow> string \<Rightarrow> string \<Rightarrow>
   (exn + (string \<times> string) option) \<times> event list" where
  \<comment> \<open>\<open>mega_download\<close> stands for \<open>Mega().login()\<close> and \<open>download_url\<close>: it raises with a
      message or returns a file name; the result is the pair (path, file name) or
      \<open>None\<close> for \<open>(None, None)\<close>\<close>
  "download_from_mega mega_download path_exists dir_of getmtime mega_url destination_folder =
     (let ev0 = [Log INFO (''Attempting to download from Mega: '' @ mega_url)];
          failed = Log ERROR (''Download failed for Mega URL: '' @ mega_url)
      in case mega_download mega_url destination_folder of
           MegaReturns filename \<Rightarrow>
             (case filename of
                None \<Rightarrow> (Inr None, ev0 @ [Sleep 5, failed])
              | Some f \<Rightarrow>
                  if f \<noteq> [] \<and> join destination_folder f \<noteq> []
                     \<and> path_exists (join destination_folder f)
                  then (Inr (Some (join destination_folder f, f)),
                        ev0 @ [Sleep 5,
                          Log INFO (''Successfully downloaded '' @ [CHR 0x27] @ f @ [CHR 0x27]
                            @ '' from Mega to '' @ [CHR 0x27] @ destination_folder
                            @ [CHR 0x27] @ ''.'')])
                  else (Inr None, ev0 @ [Sleep 5, failed]))
         | MegaRaises e \<Rightarrow>
             (let giving_up = Log ERROR (''Error downloading from Mega '' @ mega_url @ '': '' @ e)
              in if contains e ''WinError 32''
                 then (case listdir dir_of destination_folder of
                         Inl x \<Rightarrow> (Inl x, ev0 @ [Sleep 5])
                       | Inr names \<Rightarrow>
                           (case filter (\<lambda>f. endswith f ''.rar'') names of
                              [] \<Rightarrow> (Inr None, ev0 @ [Sleep 5, giving_up])
                            | r # rs \<Rightarrow>
                                (let latest_rar =
                                       max_by (\<lambda>x. getmtime (join destination_folder x)) r rs
                                 in (Inr (Some (join destination_folder latest_rar, latest_rar)),
                                     ev0 @ [Sleep 5,
                                       Log INFO (''Found downloaded RAR despite access error: ''
                                                 @ latest_rar)]))))
                 else (Inr None, ev0 @ [giving_up])))"

section \<open>Archive Extractor\<close>

datatype extract_outcome = ExtractOk | RarCannotExec string | BadRarFile string | ExtractError string

definition extract_rar ::
  "(string \<Rightarrow> string \<Rightarrow> extract_outcome) \<Rightarrow> string \<Rightarrow> string \<Rightarrow> bool \<times> event list" where
  "extract_rar extractall rar_path extract_to_path =
     (let ev0 = [Log INFO (''Extracting RAR: '' @ rar_path @ '' to '' @ extract_to_path)]
      in case extractall rar_path extract_to_path of
           ExtractOk \<Rightarrow>
             (True, ev0 @ [Extracted rar_path extract_to_path,
                           Log INFO (''Successfully extracted to: '' @ extract_to_path)])
         | RarCannotExec e \<Rightarrow>
             (False, ev0 @ [Log ERROR (''UnRar executable not found or not in PATH. ''
                                       @ ''Please install '' @ [CHR 0x27] @ ''unrar''
                                       @ [CHR 0x27] @ '': '' @ e)])
         | BadRarFile e \<Rightarrow>
             (False, ev0 @ [Log ERROR (''Bad RAR file: '' @ rar_path @ '' - '' @ e)])
         | ExtractError e \<Rightarrow>
             (False, ev0 @ [Log ERROR (''Error extracting RAR '' @ rar_path @ '': '' @ e)]))"

section \<open>Chapter number\<close>

definition str_int :: "int \<Rightarrow> string" where
  "str_int i = (if i < 0 then CHR ''-'' # str_nat (nat (- i)) else str_nat (nat i))"

definition fmt_04d_int :: "int \<Rightarrow> string" where
  \<comment> \<open>\<open>f"{i:04d}"\<close>: the sign counts in the width\<close>
  "fmt_04d_int i =
     (if i < 0
      then CHR ''-'' # replicate (3 - length (str_nat (nat (- i)))) (CHR ''0'') @ str_nat (nat (- i))
      else fmt_04d (nat i))"

definition get_chapter_number_from_filename :: "string \<Rightarrow> int option \<times> event list" where
  "get_chapter_number_from_filename filename =
     (let name_parts = fst (splitext filename)
      in if startswith name_parts ''c'' \<and> isdigit (drop 1 name_parts)
         then (case py_int (drop 1 name_parts) of
                 Some n \<Rightarrow> (Some n, [])
               | None \<Rightarrow>
                   (None,
                    [Log ERROR (''Could not extract chapter number from '' @ filename
                       @ '': invalid literal for int() with base 10: ''
                       @ [CHR 0x27] @ drop 1 name_parts @ [CHR 0x27])]))
         else (None, []))"

definition get_chapter_number_from_title :: "string \<Rightarrow> int option" where
  \<comment> \<open>\<open>re.search(r'\\d+', title)\<close>: the first run of decimal digits\<close>
  "get_chapter_number_from_title title =
     (let m = takeWhile is_decimal (dropWhile (\<lambda>c. \<not> is_decimal c) title)
      in if m \<noteq> [] then py_int m else None)"

section \<open>Pipeline Coordinator\<close>

text \<open>
  The configuration and the platform, and the answers that the outside world gives
  during one run of the pipeline (each of these calls happens at most once a run for
  one argument).
\<close>

record config =
  TEMP_DIR :: string
  OUTPUT_PDF_DIR :: string
  CHAPTER_KEYWORD :: string
  MAX_AGE_HOURS :: int
  os_linesep :: string

record 't env =
  http_get :: "string \<Rightarrow> http_result"
  mega_download :: "string \<Rightarrow> string \<Rightarrow> mega_result"
  path_exists :: "string \<Rightarrow> bool"
  dir_of :: dir_oracle
  getmtime :: "string \<Rightarrow> 't"
  remove_error :: "string \<Rightarrow> string option"
  makedirs_error :: "string \<Rightarrow> string option"
  extractall :: "string \<Rightarrow> string \<Rightarrow> extract_outcome"
  save_error :: "string \<Rightarrow> string option"
  rmtree_error :: "string \<Rightarrow> string option"
  ledger_write_error :: "string option"

definition remove_or_raise ::
  "('t, 'x) env_scheme \<Rightarrow> string \<Rightarrow> string option \<Rightarrow> event list \<Rightarrow>
   (exn + bool) \<times> string option \<times> event list" where
  \<comment> \<open>\<open>os.remove(temp_rar_path); return False\<close> outside any \<open>try\<close>: an OSError leaves
      the pipeline\<close>
  "remove_or_raise env temp_rar_path ledger evs =
     (case remove_error env temp_rar_path of
        Some e \<Rightarrow> (Inl (OSError e), ledger, evs)
      | None \<Rightarrow> (Inr False, ledger, evs @ [FileRemoved temp_rar_path]))"

definition chapter_temp_extract_dir :: "config \<Rightarrow> int \<Rightarrow> string" where
  "chapter_temp_extract_dir cfg chapter_number =
     join (TEMP_DIR cfg) (''chapter_'' @ str_int chapter_number)"

definition final_pdf_path :: "config \<Rightarrow> int \<Rightarrow> string" where
  "final_pdf_path cfg chapter_number =
     join (OUTPUT_PDF_DIR cfg) (''One Piece - '' @ fmt_04d_int chapter_number @ ''.pdf'')"

definition remove_rar_logged :: "('t, 'x) env_scheme \<Rightarrow> string \<Rightarrow> event list" where
  \<comment> \<open>step 4: \<open>os.remove(temp_rar_path)\<close> inside \<open>try\<close>, an OSError only logged\<close>
  "remove_rar_logged env temp_rar_path =
     (case remove_error env temp_rar_path of
        None \<Rightarrow>
          [FileRemoved temp_rar_path,
           Log INFO (''Removed temporary RAR file: '' @ temp_rar_path)]
      | Some e \<Rightarrow>
          [Log ERROR (''Error removing RAR file '' @ temp_rar_path @ '': '' @ e)])"

definition rmtree_logged :: "('t, 'x) env_scheme \<Rightarrow> string \<Rightarrow> event list" where
  \<comment> \<open>step 6: \<open>shutil.rmtree(chapter_temp_extract_dir)\<close> inside \<open>try\<close>, an OSError only
      logged\<close>
  "rmtree_logged env dir =
     (case rmtree_error env dir of
        None \<Rightarrow>
          [TreeRemoved dir,
           Log INFO (''Removed temporary extraction directory: '' @ dir)]
      | Some e \<Rightarrow>
          [Log ERROR (''Error removing temporary directory '' @ dir @ '': '' @ e)])"

definition finish_chapter ::
  "('t, 'x) env_scheme \<Rightarrow> config \<Rightarrow> string \<Rightarrow> string option \<Rightarrow> int \<Rightarrow> event list \<Rightarrow>
   (exn + bool) \<times> string option \<times> event list" where
  \<comment> \<open>steps 5 to 7 of \<open>process_new_chapter\<close>: create the PDF, clean up the extraction
      directory, save to the processed chapters\<close>
  "finish_chapter env cfg post_link ledger chapter_number evs =
     (case images_to_pdf (dir_of env) (save_error env (final_pdf_path cfg chapter_number))
             (chapter_temp_extract_dir cfg chapter_number)
             (final_pdf_path cfg chapter_number) (nat chapter_number) of
        (Inl x, ev_pdf) \<Rightarrow> (Inl x, ledger, evs @ ev_pdf)
      | (Inr made, ev_pdf) \<Rightarrow>
          if \<not> made then (Inr False, ledger, evs @ ev_pdf)
          else
            (case save_processed_chapter (os_linesep cfg) (ledger_write_error env)
                    post_link ledger of
               (ledger', ev_save) \<Rightarrow>
                 (Inr True, ledger',
                  evs @ ev_pdf
                  @ rmtree_logged env (chapter_temp_extract_dir cfg chapter_number)
                  @ ev_save @
                  [Log INFO (''Successfully processed chapter '' @ str_int chapter_number
                             @ ''. PDF saved to '' @ final_pdf_path cfg chapter_number)])))"

definition process_new_chapter ::
  "('t::linorder, 'x) env_scheme \<Rightarrow> config \<Rightarrow> string \<Rightarrow> string option \<Rightarrow>
   (exn + bool) \<times> string option \<times> event list" where
  \<comment> \<open>the result (or the exception that leaves the function), the backing file of the
      Ledger afterwards, and what happened, in order\<close>
  "process_new_chapter env cfg post_link ledger =
     (let ev0 = [Log INFO (''Processing new chapter from post: '' @ post_link)]
      in case get_mega_file_url (http_get env) post_link of
           (None, ev1) \<Rightarrow> (Inr False, ledger, ev0 @ ev1)
         | (Some mega_link, ev1) \<Rightarrow>
             if mega_link = [] then (Inr False, ledger, ev0 @ ev1)
             else
             (case download_from_mega (mega_download env) (path_exists env) (dir_of env)
                     (getmtime env) mega_link (TEMP_DIR cfg) of
                (Inl x, ev2) \<Rightarrow> (Inl x, ledger, ev0 @ ev1 @ ev2)
              | (Inr None, ev2) \<Rightarrow> (Inr False, ledger, ev0 @ ev1 @ ev2)
              | (Inr (Some (temp_rar_path, rar_filename)), ev2) \<Rightarrow>
                  if temp_rar_path = [] then (Inr False, ledger, ev0 @ ev1 @ ev2)
                  else
                  (case get_chapter_number_from_filename rar_filename of
                     (None, ev3) \<Rightarrow>
                       remove_or_raise env temp_rar_path ledger
                         (ev0 @ ev1 @ ev2 @ ev3 @
                          [Log ERROR (''Could not determine chapter number from RAR filename: ''
                                      @ rar_filename @ ''. Skipping.'')])
                   | (Some chapter_number, ev3) \<Rightarrow>
                       (case makedirs_error env (chapter_temp_extract_dir cfg chapter_number) of
                          Some e \<Rightarrow> (Inl (OSError e), ledger, ev0 @ ev1 @ ev2 @ ev3)
                        | None \<Rightarrow>
                            (case extract_rar (extractall env) temp_rar_path
                                    (chapter_temp_extract_dir cfg chapter_number) of
                               (False, ev4) \<Rightarrow>
                                 remove_or_raise env temp_rar_path ledger
                                   (ev0 @ ev1 @ ev2 @ ev3
                                    @ [DirsMade (chapter_temp_extract_dir cfg chapter_number)]
                                    @ ev4)
                             | (True, ev4) \<Rightarrow>
                                 finish_chapter env cfg post_link ledger chapter_number
                                   (ev0 @ ev1 @ ev2 @ ev3
                                    @ [DirsMade (chapter_temp_extract_dir cfg chapter_number)]
                                    @ ev4 @ remove_rar_logged env temp_rar_path))))))"

section \<open>Feed Watcher\<close>

record entry =
  title :: string
  link :: string
  published :: int

text \<open>
  One pass of the loop over \<open>feed.entries\<close> inside \<open>watch_rss_feed\<close>. Times are in
  microseconds; each entry comes with the clock's reading when its age is checked and
  with the outside world's answers during its run. An exception ends the pass: the
  \<open>except\<close> around the cycle logs it.
\<close>

fun watch_entries ::
  "config \<Rightarrow> (entry \<times> int \<times> ('t::linorder) env) list \<Rightarrow> string set \<Rightarrow> string option \<Rightarrow>
   string set \<times> string option \<times> event list" where
  "watch_entries cfg [] processed_urls ledger = (processed_urls, ledger, [])"
| "watch_entries cfg ((e, now, env) # rest) processed_urls ledger =
     (if now - published e > MAX_AGE_HOURS cfg * 3600 * 1000000
      then watch_entries cfg rest processed_urls ledger
      else if contains (lower (title e)) (lower (CHAPTER_KEYWORD cfg))
      then
        (if link e \<notin> processed_urls
         then
           (let ev0 = [Log INFO (''New chapter post detected: '' @ [CHR 0x27] @ title e
                                 @ [CHR 0x27])]
            in case process_new_chapter env cfg (link e) ledger of
                 (Inl x, ledger', evs) \<Rightarrow>
                   (processed_urls, ledger',
                    ev0 @ evs @
                    [Log ERROR (''An error occurred during RSS feed check: '' @ exn_text x)])
               | (Inr ok, ledger', evs) \<Rightarrow>
                   if ok
                   then (case watch_entries cfg rest (insert (link e) processed_urls) ledger' of
                           (p, l, evs') \<Rightarrow> (p, l, ev0 @ evs @ evs'))
                   else (case watch_entries cfg rest processed_urls ledger' of
                           (p, l, evs') \<Rightarrow>
                             (p, l,
                              ev0 @ evs @
                              [Log ERROR (''Failed to process chapter from '' @ [CHR 0x27]
                                 @ link e @ [CHR 0x27] @ ''. Will retry on next loop.'')]
                              @ evs')))
         else
           (case watch_entries cfg rest processed_urls ledger of
              (p, l, evs') \<Rightarrow>
                (p, l, Log DEBUG (''Chapter already processed: '' @ [CHR 0x27] @ title e
                                  @ [CHR 0x27]) # evs')))
      else watch_entries cfg rest processed_urls ledger)"

section \<open>Events that change what the claims observe\<close>

fun quiet_event :: "event \<Rightarrow> bool" where
  \<comment> \<open>neither a document written, nor a directory tree removed, nor a Ledger record\<close>
  "quiet_event (PdfSaved p pages) = False"
| "quiet_event (TreeRemoved d) = False"
| "quiet_event (LedgerAppended l) = False"
| "quiet_event (Log lv m) = True"
| "quiet_event (Sleep n) = True"
| "quiet_event (FileRemoved p) = True"
| "quiet_event (DirsMade d) = True"
| "quiet_event (Extracted a d) = True"

section \<open>A run to try the pipeline on\<close>

text \<open>
  The end-to-end scenario: the landing page holds one link to the provider, the archive
  \<open>c1502.rar\<close> arrives and unpacks into two pages, and nothing fails.
\<close>

definition example_config :: config where
  "example_config =
     \<lparr>TEMP_DIR = ''/app/temp_downloads'', OUTPUT_PDF_DIR = ''/out'',
      CHAPTER_KEYWORD = ''Chapter'', MAX_AGE_HOURS = 24, os_linesep = [LF]\<rparr>"

definition example_env :: "int env" where
  "example_env =
     \<lparr>http_get = (\<lambda>u. Page [''https://mega.nz/file/abc'']),
      mega_download = (\<lambda>u d. MegaReturns (Some ''c1502.rar'')),
      path_exists = (\<lambda>p. True),
      dir_of = (\<lambda>p. if p = ''/app/temp_downloads/chapter_1502''
                    then Some [(''c1502_p02.jpg'', File None), (''c1502_p01.jpg'', File None)]
                    else None),
      getmtime = (\<lambda>p. 0),
      remove_error = (\<lambda>p. None),
      makedirs_error = (\<lambda>p. None),
      extractall = (\<lambda>a d. ExtractOk),
      save_error = (\<lambda>p. None),
      rmtree_error = (\<lambda>p. None),
      ledger_write_error = None\<rparr>"

definition example_entry :: entry where
  "example_entry =
     \<lparr>title = ''Chapter 1502 release'', link = ''https://blog.example/post/1502'',
      published = 0\<rparr>"

section \<open>A run that stopped before the assembly succeeded\<close>

definition stopped_early ::
  "(exn + bool) \<times> string option \<times> event list \<Rightarrow> string option \<Rightarrow> bool" where
  "stopped_early res ledger =
     (fst res \<noteq> Inr True \<and> fst (snd res) = ledger \<and> list_all quiet_event (snd (snd res)))"

section \<open>Directory trees and paths\<close>

text \<open>
  The paths of all regular files below a directory, at any depth, and the names a file
  system allows: non-empty, without a slash.
\<close>

fun files_below :: "string \<Rightarrow> (string \<times> node) list \<Rightarrow> string list" where
  "files_below d [] = []"
| "files_below d ((f, File r) # es) = join d f # files_below d es"
| "files_below d ((f, Dir sub) # es) = files_below (join d f) sub @ files_below d es"

fun wf_names :: "(string \<times> node) list \<Rightarrow> bool" where
  "wf_names [] = True"
| "wf_names ((f, File r) # es) = (f \<noteq> [] \<and> CHR ''/'' \<notin> set f \<and> wf_names es)"
| "wf_names ((f, Dir sub) # es) = (f \<noteq> [] \<and> CHR ''/'' \<notin> set f \<and> wf_names sub \<and> wf_names es)"

definition dir_prefix :: "string \<Rightarrow> string" where
  "dir_prefix folder = (if folder = [] \<or> endswith folder ''/'' then folder else folder @ ''/'')"

section \<open>The Ledger survives a restart\<close>

lemma write_text_line:
  "LF \<notin> set l \<Longrightarrow> write_text linesep (l @ [LF]) = l @ linesep"
  by (induction l) (auto simp: write_text_def)

lemma universal_newlines_plain:
  "CR \<notin> set l \<Longrightarrow> universal_newlines (l @ LF # rest) = l @ LF # universal_newlines rest"
proof (induction l)
  case Nil
  show ?case by (cases rest) auto
next
  case (Cons c l)
  then show ?case by (cases "l @ LF # rest") auto
qed

lemma universal_newlines_crlf:
  "CR \<notin> set l \<Longrightarrow> universal_newlines (l @ CR # LF # rest) = l @ LF # universal_newlines rest"
proof (induction l)
  case Nil
  show ?case by simp
next
  case (Cons c l)
  then show ?case by (cases "l @ CR # LF # rest") auto
qed

lemma file_lines_acc:
  "LF \<notin> set l \<Longrightarrow> file_lines acc (l @ LF # rest) = (rev acc @ l @ [LF]) # file_lines [] rest"
  by (induction l arbitrary: acc) auto

lemma strip_fixed_ends:
  assumes "strip l = l" "l \<noteq> []"
  shows "\<not> isspace (hd l)" "\<not> isspace (last l)"
proof -
  show "\<not> isspace (hd l)"
  proof
    assume "isspace (hd l)"
    with assms(2) have "length (dropWhile isspace l) < length l"
      by (cases l) (auto simp: length_dropWhile_le le_imp_less_Suc)
    moreover have "length (strip l) \<le> length (dropWhile isspace l)"
      unfolding strip_def by (metis length_dropWhile_le length_rev)
    ultimately show False using assms(1) by simp
  qed
  then have d: "dropWhile isspace l = l" using assms(2) by (cases l) auto
  show "\<not> isspace (last l)"
  proof
    assume "isspace (last l)"
    with assms(2) have "length (dropWhile isspace (rev l)) < length l"
      by (cases "rev l") (auto simp: length_dropWhile_le le_imp_less_Suc last_rev hd_rev dest!: arg_cong[where f=hd])
    then show False using assms(1) d unfolding strip_def
      by (metis length_rev less_irrefl)
  qed
qed

lemma strip_line:
  assumes "strip l = l" "l \<noteq> []"
  shows "strip (l @ [LF]) = l"
proof -
  from strip_fixed_ends[OF assms] have h: "\<not> isspace (hd l)" and t: "\<not> isspace (last l)" by auto
  have sp: "isspace LF" by (simp add: isspace_def)
  have "dropWhile isspace (l @ [LF]) = l @ [LF]" using h assms(2) by (cases l) auto
  moreover have "dropWhile isspace (rev (l @ [LF])) = rev l"
    using t assms(2) sp by (cases "rev l") (auto simp: last_rev hd_rev dest!: arg_cong[where f=hd])
  ultimately show ?thesis by (simp add: strip_def)
qed

lemma record_all_text:
  assumes "\<forall>l \<in> set ls. LF \<notin> set l"
  shows "record_all linesep ls fl =
     (if ls = [] then fl
      else Some ((case fl of None \<Rightarrow> [] | Some c \<Rightarrow> c) @ concat (map (\<lambda>l. l @ linesep) ls)))"
  using assms
  by (induction ls arbitrary: fl)
     (auto simp: save_processed_chapter_def write_text_line split: option.splits)

lemma read_back:
  assumes "linesep = [LF] \<or> linesep = [CR, LF]"
      and "\<forall>l \<in> set ls. LF \<notin> set l \<and> CR \<notin> set l"
  shows "file_lines [] (universal_newlines (concat (map (\<lambda>l. l @ linesep) ls)))
         = map (\<lambda>l. l @ [LF]) ls"
  using assms(2)
proof (induction ls)
  case Nil
  show ?case by simp
next
  case (Cons l ls)
  then have l: "LF \<notin> set l" "CR \<notin> set l" by auto
  from assms(1) show ?case
  proof
    assume "linesep = [LF]"
    with Cons l show ?thesis
      by (simp add: universal_newlines_plain file_lines_acc)
  next
    assume "linesep = [CR, LF]"
    with Cons l show ?thesis
      by (simp add: universal_newlines_crlf file_lines_acc)
  qed
qed

text \<open>
  Claim C5. Recording a sequence of links into a backing file that did not exist, and
  loading the file again, gives exactly the set of those links, so membership is true
  for each recorded link and false for every other string; a missing file loads as the
  empty set. The links are non-empty, hold no line break (LF or CR: the text-mode
  reader takes both for a newline) and no white space at either end. It holds for both
  line separators that text-mode writing produces.
\<close>

theorem ledger_reload:
  assumes "linesep = [LF] \<or> linesep = [CR, LF]"
      and "\<forall>l \<in> set links. l \<noteq> [] \<and> LF \<notin> set l \<and> CR \<notin> set l \<and> strip l = l"
  shows "fst (load_processed_chapters (record_all linesep links None) None) = set links
       \<and> fst (load_processed_chapters None read_error) = {}"
proof (cases "links = []")
  case True
  then show ?thesis by (simp add: load_processed_chapters_def)
next
  case False
  have nl: "\<forall>l \<in> set links. LF \<notin> set l" using assms(2) by blast
  have nlcr: "\<forall>l \<in> set links. LF \<notin> set l \<and> CR \<notin> set l" using assms(2) by blast
  have st: "\<forall>l \<in> set links. strip (l @ [LF]) = l \<and> l \<noteq> []"
    using assms(2) strip_line by blast
  have "map strip (filter (\<lambda>line. strip line \<noteq> []) (map (\<lambda>l. l @ [LF]) links)) = links"
    using st by (induction links) auto
  then show ?thesis
    using False by (simp add: load_processed_chapters_def record_all_text[OF nl]
        read_back[OF assms(1) nlcr])
qed

theorem ledger_reload_witness:
  "list_all (\<lambda>l. l \<noteq> [] \<and> LF \<notin> set l \<and> CR \<notin> set l \<and> strip l = l)
     [''http://a/1'', ''http://a/2'']
   \<and> fst (load_processed_chapters (record_all [LF] [''http://a/1'', ''http://a/2''] None) None) = {''http://a/1'', ''http://a/2''}
   \<and> ''http://a/3'' \<notin> fst (load_processed_chapters (record_all [LF] [''http://a/1'', ''http://a/2''] None) None)"
  using ledger_reload [of "[LF]" "[''http://a/1'', ''http://a/2'']"]
  by (simp add: strip_def isspace_def)


section \<open>The Link Resolver selects by substring\<close>

text \<open>
  Claim C9, as amended. When the landing page is fetched, the Link Resolver returns the
  first hyperlink in document order whose \<open>href\<close> contains the text \<open>mega.nz\<close>
  anywhere, and \<open>None\<close> when no \<open>href\<close> contains it; it also returns \<open>None\<close> when the
  page cannot be fetched. The host of the link plays no part.
\<close>

theorem link_resolver_substring:
  "fst (get_mega_file_url fetch post_url) =
     (case fetch post_url of
        RequestException e \<Rightarrow> None
      | Page hrefs \<Rightarrow> find (\<lambda>href. contains href ''mega.nz'') hrefs)"
proof (cases "fetch post_url")
  case (RequestException e)
  then show ?thesis by (simp add: get_mega_file_url_def)
next
  case (Page hrefs)
  have "(case filter P hrefs of [] \<Rightarrow> None | l # ls \<Rightarrow> Some l) = find P hrefs" for P :: "string \<Rightarrow> bool"
    by (induction hrefs) auto
  from this[of "\<lambda>href. contains href ''mega.nz''"] Page show ?thesis
    by (simp add: get_mega_file_url_def split: list.splits)
qed

text \<open>
  The claim as stated fails: a link to another host that carries \<open>mega.nz\<close> in its query
  is selected, ahead of a later link whose host is the provider's.
\<close>

theorem link_resolver_host_counterexample:
  "fst (get_mega_file_url
         (\<lambda>u. Page [''https://evil.example/?r=mega.nz'', ''https://mega.nz/file/abc''])
         ''https://blog.example/post/1'')
     = Some ''https://evil.example/?r=mega.nz''
   \<and> url_host ''https://evil.example/?r=mega.nz'' = ''evil.example''
   \<and> \<not> host_matches ''mega.nz'' ''https://evil.example/?r=mega.nz''
   \<and> host_matches ''mega.nz'' ''https://mega.nz/file/abc''"
  by code_simp

section \<open>The Archive Fetcher recovers after one kind of error\<close>

lemma max_by_greatest:
  "max_by k b xs \<in> set (b # xs) \<and> (\<forall>x \<in> set (b # xs). k x \<le> k (max_by k b xs))"
proof (induction xs arbitrary: b)
  case Nil
  show ?case by simp
next
  case (Cons x xs)
  show ?case
  proof (cases "k b < k x")
    case True
    from Cons[of x] have ih: "max_by k x xs \<in> set (x # xs)"
      "\<forall>y \<in> set (x # xs). k y \<le> k (max_by k x xs)" by auto
    from ih(2) have "k x \<le> k (max_by k x xs)" by simp
    with True have "k b \<le> k (max_by k x xs)" by (meson less_imp_le order_trans)
    with ih True show ?thesis by auto
  next
    case False
    from Cons[of b] have ih: "max_by k b xs \<in> set (b # xs)"
      "\<forall>y \<in> set (b # xs). k y \<le> k (max_by k b xs)" by auto
    from ih(2) have "k b \<le> k (max_by k b xs)" by simp
    with False have "k x \<le> k (max_by k b xs)" by (meson not_less order_trans)
    with ih False show ?thesis by auto
  qed
qed

text \<open>
  Claim C8, as amended. When the retrieval call raises an error whose message contains
  \<open>WinError 32\<close> and the destination directory lists at least one name ending in
  \<open>.rar\<close>, the Archive Fetcher pauses five seconds, lists the directory again and
  returns one of those names with the greatest modification time, with its path. When
  the message does not contain \<open>WinError 32\<close>, it reports failure at once, without a
  pause and without looking at the directory.
\<close>

theorem fetcher_recovery:
  fixes mtime :: "string \<Rightarrow> 't::linorder"
  assumes "dl mega_url folder = MegaRaises e"
  shows "(contains e ''WinError 32'' \<longrightarrow>
            listdir tree folder = Inr names \<longrightarrow>
            filter (\<lambda>f. endswith f ''.rar'') names \<noteq> [] \<longrightarrow>
            (\<exists>r. download_from_mega dl ex tree mtime mega_url folder =
                   (Inr (Some (join folder r, r)),
                    [Log INFO (''Attempting to download from Mega: '' @ mega_url), Sleep 5,
                     Log INFO (''Found downloaded RAR despite access error: '' @ r)])
                 \<and> r \<in> set names \<and> endswith r ''.rar''
                 \<and> (\<forall>x \<in> set names. endswith x ''.rar'' \<longrightarrow>
                       mtime (join folder x) \<le> mtime (join folder r))))
       \<and> (\<not> contains e ''WinError 32'' \<longrightarrow>
            download_from_mega dl ex tree mtime mega_url folder =
              (Inr None,
               [Log INFO (''Attempting to download from Mega: '' @ mega_url),
                Log ERROR (''Error downloading from Mega '' @ mega_url @ '': '' @ e)]))"
proof (intro conjI impI)
  assume w: "contains e ''WinError 32''" and l: "listdir tree folder = Inr names"
    and ne: "filter (\<lambda>f. endswith f ''.rar'') names \<noteq> []"
  then obtain r rs where rr: "filter (\<lambda>f. endswith f ''.rar'') names = r # rs"
    by (cases "filter (\<lambda>f. endswith f ''.rar'') names") auto
  let ?m = "max_by (\<lambda>x. mtime (join folder x)) r rs"
  have m: "?m \<in> set (r # rs)" "\<forall>x \<in> set (r # rs). mtime (join folder x) \<le> mtime (join folder ?m)"
    using max_by_greatest[of "\<lambda>x. mtime (join folder x)" r rs] by auto
  have s: "set (r # rs) = {x \<in> set names. endswith x ''.rar''}"
    using rr by (metis set_filter)
  have "download_from_mega dl ex tree mtime mega_url folder =
          (Inr (Some (join folder ?m, ?m)),
           [Log INFO (''Attempting to download from Mega: '' @ mega_url), Sleep 5,
            Log INFO (''Found downloaded RAR despite access error: '' @ ?m)])"
    using assms w l rr by (simp add: download_from_mega_def Let_def)
  moreover have "?m \<in> set names" "endswith ?m ''.rar''" using m(1) s by auto
  moreover have "\<forall>x \<in> set names. endswith x ''.rar'' \<longrightarrow> mtime (join folder x) \<le> mtime (join folder ?m)"
    using m(2) s by auto
  ultimately show "\<exists>r. download_from_mega dl ex tree mtime mega_url folder =
                   (Inr (Some (join folder r, r)),
                    [Log INFO (''Attempting to download from Mega: '' @ mega_url), Sleep 5,
                     Log INFO (''Found downloaded RAR despite access error: '' @ r)])
                 \<and> r \<in> set names \<and> endswith r ''.rar''
                 \<and> (\<forall>x \<in> set names. endswith x ''.rar'' \<longrightarrow>
                       mtime (join folder x) \<le> mtime (join folder r))"
    by blast
next
  assume "\<not> contains e ''WinError 32''"
  then show "download_from_mega dl ex tree mtime mega_url folder =
              (Inr None,
               [Log INFO (''Attempting to download from Mega: '' @ mega_url),
                Log ERROR (''Error downloading from Mega '' @ mega_url @ '': '' @ e)])"
    using assms by (simp add: download_from_mega_def Let_def)
qed

text \<open>
  The claim as stated fails: after an error of another kind the archive that lies in the
  destination directory is not recovered.
\<close>

theorem fetcher_recovery_counterexample:
  "fst (download_from_mega
         (\<lambda>u d. MegaRaises ''Connection reset by peer'')
         (\<lambda>p. True)
         (\<lambda>p. if p = ''/app/temp_downloads'' then Some [(''c1502.rar'', File None)] else None)
         (\<lambda>p. 0 :: int)
         ''https://mega.nz/file/abc'' ''/app/temp_downloads'')
     = Inr None"
  by code_simp

theorem fetcher_recovery_witness:
  "fst (download_from_mega
         (\<lambda>u d. MegaRaises ''[WinError 32] The process cannot access the file'')
         (\<lambda>p. True)
         (\<lambda>p. if p = ''/t'' then Some [(''c1.rar'', File None), (''c2.rar'', File None), (''n.txt'', File None)] else None)
         (\<lambda>p. if p = ''/t/c2.rar'' then 7 else 3 :: int)
         ''https://mega.nz/file/abc'' ''/t'')
     = Inr (Some (''/t/c2.rar'', ''c2.rar''))"
proof -
  let ?dl = "\<lambda>(u::string) (d::string). MegaRaises ''[WinError 32] The process cannot access the file''"
  let ?tree = "\<lambda>p. if p = ''/t'' then Some [(''c1.rar'', File None), (''c2.rar'', File None), (''n.txt'', File None)] else None"
  let ?mt = "\<lambda>p. if p = ''/t/c2.rar'' then 7 else 3 :: int"
  have 1: "?dl ''https://mega.nz/file/abc'' ''/t'' = MegaRaises ''[WinError 32] The process cannot access the file''" by simp
  have 2: "contains ''[WinError 32] The process cannot access the file'' ''WinError 32''" by code_simp
  have 3: "listdir ?tree ''/t'' = Inr [''c1.rar'', ''c2.rar'', ''n.txt'']" by (simp add: listdir_def)
  have 4: "filter (\<lambda>f. endswith f ''.rar'') [''c1.rar'', ''c2.rar'', ''n.txt''] \<noteq> []" by (simp add: endswith_def)
  from fetcher_recovery[where dl = ?dl and mega_url = "''https://mega.nz/file/abc''" and folder = "''/t''"
      and tree = ?tree and mtime = ?mt and ex = "\<lambda>p. True", OF 1] 2 3 4
  obtain r where r: "download_from_mega ?dl (\<lambda>p. True) ?tree ?mt ''https://mega.nz/file/abc'' ''/t'' =
        (Inr (Some (join ''/t'' r, r)),
         [Log INFO (''Attempting to download from Mega: '' @ ''https://mega.nz/file/abc''), Sleep 5,
          Log INFO (''Found downloaded RAR despite access error: '' @ r)])"
     and rin: "r \<in> set [''c1.rar'', ''c2.rar'', ''n.txt'']" "endswith r ''.rar''"
     and mx: "\<forall>x \<in> set [''c1.rar'', ''c2.rar'', ''n.txt'']. endswith x ''.rar'' \<longrightarrow> ?mt (join ''/t'' x) \<le> ?mt (join ''/t'' r)"
    by blast
  have "r = ''c2.rar''"
  proof (rule ccontr)
    assume n: "r \<noteq> ''c2.rar''"
    with rin have "r = ''c1.rar'' \<or> r = ''n.txt''" by auto
    then have jr: "join ''/t'' r \<noteq> ''/t/c2.rar''" by (auto simp: join_def startswith_def endswith_def)
    have "endswith ''c2.rar'' ''.rar''" by (simp add: endswith_def)
    with mx have "?mt (join ''/t'' ''c2.rar'') \<le> ?mt (join ''/t'' r)" by simp
    moreover have "join ''/t'' ''c2.rar'' = ''/t/c2.rar''" by (simp add: join_def startswith_def endswith_def)
    ultimately show False using jr by simp
  qed
  with r show ?thesis by (simp add: join_def startswith_def endswith_def)
qed



section \<open>The events of each stage\<close>

lemma open_all_quiet: "list_all quiet_event (snd (open_all opn ps))"
  by (induction ps) (auto split: prod.splits option.splits)

lemma open_all_images: "fst (open_all opn ps) = filter (\<lambda>p. opn p = None) ps"
  by (induction ps) (auto split: prod.splits option.splits)

lemma images_to_pdf_cases:
  assumes "images_to_pdf tree se d pdf n = (r, ev)"
  shows "(r = Inr True \<and> se = None \<and>
           (\<exists>pre pages. ev = pre @ [PdfSaved pdf pages,
                                      Log INFO (''PDF created successfully at: '' @ pdf)]
              \<and> list_all quiet_event pre \<and> pages \<noteq> []))
         \<or> (r \<noteq> Inr True \<and> list_all quiet_event ev)"
proof -
  have q: "list_all quiet_event evs" if "open_all opn ps = (imgs, evs)" for opn ps imgs evs
    using open_all_quiet[of opn ps] that by simp
  show ?thesis
    using assms
    by (auto simp: images_to_pdf_def Let_def dest: q
        split: sum.splits if_splits prod.splits option.splits)
qed

lemma get_mega_file_url_quiet:
  "get_mega_file_url h p = (r, ev) \<Longrightarrow> list_all quiet_event ev"
  by (auto simp: get_mega_file_url_def Let_def split: http_result.splits list.splits)

lemma download_from_mega_quiet:
  "download_from_mega dl ex tree mt u d = (r, ev) \<Longrightarrow> list_all quiet_event ev"
  by (auto simp: download_from_mega_def Let_def
      split: mega_result.splits option.splits if_splits sum.splits list.splits)

lemma extract_rar_quiet:
  "extract_rar x a b = (r, ev) \<Longrightarrow> list_all quiet_event ev"
  by (auto simp: extract_rar_def Let_def split: extract_outcome.splits)

lemma get_chapter_number_from_filename_quiet:
  "get_chapter_number_from_filename f = (r, ev) \<Longrightarrow> list_all quiet_event ev"
  by (auto simp: get_chapter_number_from_filename_def Let_def split: if_splits option.splits)

lemma remove_rar_logged_quiet: "list_all quiet_event (remove_rar_logged env p)"
  by (simp add: remove_rar_logged_def split: option.splits)

lemma remove_or_raise_quiet:
  "list_all quiet_event evs \<Longrightarrow> remove_or_raise env p ledger evs = (r, l', ev') \<Longrightarrow>
     r \<noteq> Inr True \<and> l' = ledger \<and> list_all quiet_event ev'"
  by (auto simp: remove_or_raise_def split: option.splits)

lemma quiet_not_mem:
  "list_all quiet_event evs \<Longrightarrow>
     LedgerAppended l \<notin> set evs \<and> PdfSaved p pg \<notin> set evs \<and> TreeRemoved d \<notin> set evs"
  by (induction evs) auto

lemma split_after_prefix:
  "xs @ ys = pre @ a # suf \<Longrightarrow> a \<notin> set xs \<Longrightarrow> \<exists>us. pre = xs @ us \<and> ys = us @ a # suf"
proof (induction xs arbitrary: pre)
  case Nil
  then show ?case by simp
next
  case (Cons x xs)
  then obtain p' where "pre = x # p'" by (cases pre) auto
  with Cons show ?case by auto
qed

section \<open>The two ways a run of the pipeline can go\<close>

lemma finish_chapter_cases:
  fixes env :: "('t, 'x) env_scheme"
  assumes "list_all quiet_event evs0"
  shows "stopped_early (finish_chapter env cfg post ledger n evs0) ledger
       \<or> (\<exists>pre pages.
             finish_chapter env cfg post ledger n evs0 =
               (Inr True,
                fst (save_processed_chapter (os_linesep cfg) (ledger_write_error env) post ledger),
                evs0 @ pre @ [PdfSaved (final_pdf_path cfg n) pages,
                       Log INFO (''PDF created successfully at: '' @ final_pdf_path cfg n)]
                    @ rmtree_logged env (chapter_temp_extract_dir cfg n)
                    @ snd (save_processed_chapter (os_linesep cfg) (ledger_write_error env)
                             post ledger)
                    @ [Log INFO (''Successfully processed chapter '' @ str_int n
                                 @ ''. PDF saved to '' @ final_pdf_path cfg n)])
            \<and> list_all quiet_event pre \<and> pages \<noteq> [])"
proof -
  let ?pdf = "final_pdf_path cfg n"
  obtain r0 ev_pdf where i: "images_to_pdf (dir_of env) (save_error env ?pdf)
       (chapter_temp_extract_dir cfg n) ?pdf (nat n) = (r0, ev_pdf)"
    by fastforce
  from images_to_pdf_cases[OF i] show ?thesis
  proof
    assume a: "r0 = Inr True \<and> save_error env ?pdf = None \<and>
           (\<exists>pre pages. ev_pdf = pre @ [PdfSaved ?pdf pages,
                                      Log INFO (''PDF created successfully at: '' @ ?pdf)]
              \<and> list_all quiet_event pre \<and> pages \<noteq> [])"
    then obtain pre pages where p: "ev_pdf = pre @ [PdfSaved ?pdf pages,
                                      Log INFO (''PDF created successfully at: '' @ ?pdf)]"
       "list_all quiet_event pre" "pages \<noteq> []" by blast
    have "finish_chapter env cfg post ledger n evs0 =
               (Inr True,
                fst (save_processed_chapter (os_linesep cfg) (ledger_write_error env) post ledger),
                evs0 @ pre @ [PdfSaved ?pdf pages,
                       Log INFO (''PDF created successfully at: '' @ ?pdf)]
                    @ rmtree_logged env (chapter_temp_extract_dir cfg n)
                    @ snd (save_processed_chapter (os_linesep cfg) (ledger_write_error env)
                             post ledger)
                    @ [Log INFO (''Successfully processed chapter '' @ str_int n
                                 @ ''. PDF saved to '' @ ?pdf)])"
      using i a p(1) by (simp add: finish_chapter_def split: prod.splits)
    with p(2,3) show ?thesis by blast
  next
    assume b: "r0 \<noteq> Inr True \<and> list_all quiet_event ev_pdf"
    then have "finish_chapter env cfg post ledger n evs0 = (r0, ledger, evs0 @ ev_pdf)"
      using i by (cases r0) (auto simp: finish_chapter_def)
    with b assms show ?thesis by (simp add: stopped_early_def)
  qed
qed

lemma process_new_chapter_cases:
  fixes env :: "('t::linorder, 'x) env_scheme"
  shows "stopped_early (process_new_chapter env cfg post ledger) ledger
       \<or> (\<exists>n evs0. process_new_chapter env cfg post ledger =
              finish_chapter env cfg post ledger n evs0
            \<and> list_all quiet_event evs0
            \<and> DirsMade (chapter_temp_extract_dir cfg n) \<in> set evs0)"
proof -
  let ?ev0 = "[Log INFO (''Processing new chapter from post: '' @ post)]"
  obtain ml ev1 where g: "get_mega_file_url (http_get env) post = (ml, ev1)" by fastforce
  note q1 = get_mega_file_url_quiet[OF g]
  show ?thesis
  proof (cases "ml = None \<or> ml = Some []")
    case True
    with g q1 show ?thesis by (auto simp: process_new_chapter_def stopped_early_def Let_def)
  next
    case False
    then obtain mega_link where ml: "ml = Some mega_link" "mega_link \<noteq> []" by auto
    obtain dr ev2 where d: "download_from_mega (mega_download env) (path_exists env)
        (dir_of env) (getmtime env) mega_link (TEMP_DIR cfg) = (dr, ev2)" by fastforce
    note q2 = download_from_mega_quiet[OF d]
    show ?thesis
    proof (cases "\<exists>p f. dr = Inr (Some (p, f)) \<and> p \<noteq> []")
      case False
      then consider (a) x where "dr = Inl x" | (b) "dr = Inr None"
        | (c) f where "dr = Inr (Some ([], f))"
      proof (cases dr)
        case (Inl x)
        then show ?thesis using a by blast
      next
        case (Inr o1)
        show ?thesis
        proof (cases o1)
          case None
          with Inr show ?thesis using b by blast
        next
          case (Some pf)
          obtain p1 f1 where "pf = (p1, f1)" by (cases pf)
          with Some Inr False have "p1 = []" by auto
          with \<open>pf = (p1, f1)\<close> Some Inr show ?thesis using c by blast
        qed
      qed
      then show ?thesis
      proof cases
        case a
        with g ml d q1 q2 show ?thesis
          by (simp add: process_new_chapter_def stopped_early_def Let_def)
      next
        case b
        with g ml d q1 q2 show ?thesis
          by (simp add: process_new_chapter_def stopped_early_def Let_def)
      next
        case c
        with g ml d q1 q2 show ?thesis
          by (simp add: process_new_chapter_def stopped_early_def Let_def)
      qed
    next
      case True
      then obtain p f where dr: "dr = Inr (Some (p, f))" "p \<noteq> []" by auto
      obtain cn ev3 where c: "get_chapter_number_from_filename f = (cn, ev3)" by fastforce
      note q3 = get_chapter_number_from_filename_quiet[OF c]
      show ?thesis
      proof (cases cn)
        case None
        let ?evs = "?ev0 @ ev1 @ ev2 @ ev3 @
               [Log ERROR (''Could not determine chapter number from RAR filename: '' @ f
                           @ ''. Skipping.'')]"
        have qq: "list_all quiet_event ?evs" using q1 q2 q3 by simp
        obtain r l' ev' where rr: "remove_or_raise env p ledger ?evs = (r, l', ev')"
          using prod_cases3 by blast
        have "process_new_chapter env cfg post ledger = remove_or_raise env p ledger ?evs"
          using g ml d dr c None by (simp add: process_new_chapter_def Let_def)
        with remove_or_raise_quiet[OF qq rr] rr show ?thesis
          by (simp add: stopped_early_def)
      next
        case (Some n)
        let ?dir = "chapter_temp_extract_dir cfg n"
        show ?thesis
        proof (cases "makedirs_error env ?dir")
          case (Some e)
          with g ml d dr c \<open>cn = Some n\<close> q1 q2 q3 show ?thesis
            by (simp add: process_new_chapter_def stopped_early_def Let_def)
        next
          case None
          obtain ok ev4 where x: "extract_rar (extractall env) p ?dir = (ok, ev4)" by fastforce
          note q4 = extract_rar_quiet[OF x]
          show ?thesis
          proof (cases ok)
            case False
            let ?evs = "?ev0 @ ev1 @ ev2 @ ev3 @ [DirsMade ?dir] @ ev4"
            have qq: "list_all quiet_event ?evs" using q1 q2 q3 q4 by simp
            obtain r l' ev' where rr: "remove_or_raise env p ledger ?evs = (r, l', ev')"
              using prod_cases3 by blast
            have "process_new_chapter env cfg post ledger = remove_or_raise env p ledger ?evs"
              using g ml d dr c \<open>cn = Some n\<close> None x False
              by (simp add: process_new_chapter_def Let_def)
            with remove_or_raise_quiet[OF qq rr] rr show ?thesis
              by (simp add: stopped_early_def)
          next
            case True
            let ?evs0 = "?ev0 @ ev1 @ ev2 @ ev3 @ [DirsMade ?dir] @ ev4 @ remove_rar_logged env p"
            have qq: "list_all quiet_event ?evs0"
              using q1 q2 q3 q4 remove_rar_logged_quiet[of env p] by simp
            have "process_new_chapter env cfg post ledger =
                    finish_chapter env cfg post ledger n ?evs0"
              using g ml d dr c \<open>cn = Some n\<close> None x True
              by (simp add: process_new_chapter_def Let_def)
            moreover have "DirsMade ?dir \<in> set ?evs0" by simp
            ultimately show ?thesis using qq by blast
          qed
        qed
      qed
    qed
  qed
qed

lemma process_new_chapter_shape:
  fixes env :: "('t::linorder, 'x) env_scheme"
  shows "stopped_early (process_new_chapter env cfg post ledger) ledger
       \<or> (\<exists>n pre pages.
             process_new_chapter env cfg post ledger =
               (Inr True,
                fst (save_processed_chapter (os_linesep cfg) (ledger_write_error env) post ledger),
                pre @ [PdfSaved (final_pdf_path cfg n) pages,
                       Log INFO (''PDF created successfully at: '' @ final_pdf_path cfg n)]
                    @ rmtree_logged env (chapter_temp_extract_dir cfg n)
                    @ snd (save_processed_chapter (os_linesep cfg) (ledger_write_error env)
                             post ledger)
                    @ [Log INFO (''Successfully processed chapter '' @ str_int n
                                 @ ''. PDF saved to '' @ final_pdf_path cfg n)])
            \<and> list_all quiet_event pre \<and> pages \<noteq> []
            \<and> DirsMade (chapter_temp_extract_dir cfg n) \<in> set pre)"
  using process_new_chapter_cases[of env cfg post ledger]
proof
  assume "stopped_early (process_new_chapter env cfg post ledger) ledger"
  then show ?thesis by blast
next
  assume "\<exists>n evs0. process_new_chapter env cfg post ledger =
              finish_chapter env cfg post ledger n evs0
            \<and> list_all quiet_event evs0
            \<and> DirsMade (chapter_temp_extract_dir cfg n) \<in> set evs0"
  then obtain n evs0 where f: "process_new_chapter env cfg post ledger =
              finish_chapter env cfg post ledger n evs0"
     and q: "list_all quiet_event evs0"
     and dm: "DirsMade (chapter_temp_extract_dir cfg n) \<in> set evs0" by blast
  from finish_chapter_cases[OF q, of env cfg post ledger n]
  show ?thesis
  proof
    assume "stopped_early (finish_chapter env cfg post ledger n evs0) ledger"
    with f show ?thesis by simp
  next
    assume "\<exists>pre pages.
             finish_chapter env cfg post ledger n evs0 =
               (Inr True,
                fst (save_processed_chapter (os_linesep cfg) (ledger_write_error env) post ledger),
                evs0 @ pre @ [PdfSaved (final_pdf_path cfg n) pages,
                       Log INFO (''PDF created successfully at: '' @ final_pdf_path cfg n)]
                    @ rmtree_logged env (chapter_temp_extract_dir cfg n)
                    @ snd (save_processed_chapter (os_linesep cfg) (ledger_write_error env)
                             post ledger)
                    @ [Log INFO (''Successfully processed chapter '' @ str_int n
                                 @ ''. PDF saved to '' @ final_pdf_path cfg n)])
            \<and> list_all quiet_event pre \<and> pages \<noteq> []"
    then obtain pre pages where
      e: "finish_chapter env cfg post ledger n evs0 =
               (Inr True,
                fst (save_processed_chapter (os_linesep cfg) (ledger_write_error env) post ledger),
                (evs0 @ pre) @ [PdfSaved (final_pdf_path cfg n) pages,
                       Log INFO (''PDF created successfully at: '' @ final_pdf_path cfg n)]
                    @ rmtree_logged env (chapter_temp_extract_dir cfg n)
                    @ snd (save_processed_chapter (os_linesep cfg) (ledger_write_error env)
                             post ledger)
                    @ [Log INFO (''Successfully processed chapter '' @ str_int n
                                 @ ''. PDF saved to '' @ final_pdf_path cfg n)])"
      and pq: "list_all quiet_event pre" "pages \<noteq> []" by auto
    have "list_all quiet_event (evs0 @ pre)" using q pq(1) by simp
    moreover have "DirsMade (chapter_temp_extract_dir cfg n) \<in> set (evs0 @ pre)" using dm by simp
    ultimately show ?thesis using e f pq(2) by metis
  qed
qed

lemma save_processed_chapter_events:
  "snd (save_processed_chapter sep we post ledger) =
     (case we of
        None \<Rightarrow> [LedgerAppended post,
                  Log INFO (''Saved URL to processed chapters file: '' @ post)]
      | Some e \<Rightarrow> [Log ERROR (''Error saving to processed chapters file: '' @ e)])"
  by (simp add: save_processed_chapter_def split: option.splits)

lemma save_processed_chapter_file:
  "fst (save_processed_chapter sep we post ledger) \<noteq> ledger \<Longrightarrow> we = None"
  by (simp add: save_processed_chapter_def split: option.splits)

lemma rmtree_logged_no_record: "LedgerAppended l \<notin> set (rmtree_logged env d)"
  by (simp add: rmtree_logged_def split: option.splits)

lemma watch_entries_adds_only_successes:
  fixes entries :: "(entry \<times> int \<times> ('t::linorder) env) list"
  shows "fst (watch_entries cfg entries P l0)
           \<subseteq> P \<union> {link e | e now env. (e, now, env) \<in> set entries
                       \<and> (\<exists>led. fst (process_new_chapter env cfg (link e) led) = Inr True)}"
proof (induction entries arbitrary: P l0)
  case Nil
  show ?case by simp
next
  case (Cons a entries)
  obtain e now env where a: "a = (e, now, env)" by (cases a)
  let ?S = "\<lambda>es. {link e | e now env. (e, now, env) \<in> set es
                       \<and> (\<exists>led. fst (process_new_chapter env cfg (link e) led) = Inr True)}"
  have mono: "?S entries \<subseteq> ?S (a # entries)" by auto
  have skip: "fst (watch_entries cfg entries P l) \<subseteq> P \<union> ?S (a # entries)" for l
    using Cons[of P l] mono by blast
  obtain r l' evs where pr: "process_new_chapter env cfg (link e) l0 = (r, l', evs)"
    using prod_cases3 by blast
  have step: "fst (watch_entries cfg (a # entries) P l0) = fst (watch_entries cfg entries P l0)
      \<or> fst (watch_entries cfg (a # entries) P l0) = P
      \<or> (r = Inr True \<and> fst (watch_entries cfg (a # entries) P l0)
              = fst (watch_entries cfg entries (insert (link e) P) l'))
      \<or> fst (watch_entries cfg (a # entries) P l0) = fst (watch_entries cfg entries P l')"
    unfolding a using pr
    by (auto simp: Let_def split: prod.splits sum.splits if_splits)
  have ins: "fst (watch_entries cfg entries (insert (link e) P) l') \<subseteq> P \<union> ?S (a # entries)"
    if "r = Inr True"
  proof -
    have "(e, now, env) \<in> set (a # entries)" using a by simp
    moreover have "\<exists>led. fst (process_new_chapter env cfg (link e) led) = Inr True"
      using pr that by (intro exI[of _ l0]) simp
    ultimately have "link e \<in> ?S (a # entries)" by blast
    moreover have "fst (watch_entries cfg entries (insert (link e) P) l')
        \<subseteq> insert (link e) P \<union> ?S entries"
      using Cons[of "insert (link e) P" l'] by simp
    ultimately show ?thesis using mono by blast
  qed
  from step show ?case
  proof (elim disjE conjE)
    assume "fst (watch_entries cfg (a # entries) P l0) = fst (watch_entries cfg entries P l0)"
    with skip[of l0] show ?thesis by simp
  next
    assume "fst (watch_entries cfg (a # entries) P l0) = P"
    then show ?thesis by simp
  next
    assume "r = Inr True" "fst (watch_entries cfg (a # entries) P l0)
              = fst (watch_entries cfg entries (insert (link e) P) l')"
    with ins show ?thesis by simp
  next
    assume "fst (watch_entries cfg (a # entries) P l0) = fst (watch_entries cfg entries P l')"
    with skip[of l'] show ?thesis by simp
  qed
qed

section \<open>The Ledger is written last\<close>

text \<open>
  Claim C1. Whatever the outside world answers during a run of the pipeline for an
  announcement: when the run does not return success (it returns failure or an exception
  leaves it), the backing file of the Ledger is as it was and no record was made; when
  the backing file changed, the run returned success and recorded this announcement's
  link; every record made during the run is of this link, in a run that returns success,
  and comes after the output document was written, with at least one page. In a pass
  over the feed, the only links added to the in-memory set are links of entries whose
  run returned success.
\<close>

theorem ledger_only_after_success:
  fixes env :: "('t::linorder, 'x) env_scheme"
    and entries :: "(entry \<times> int \<times> ('s::linorder) env) list"
  assumes "process_new_chapter env cfg post ledger = (r, ledger', evs)"
  shows "(r \<noteq> Inr True \<longrightarrow> ledger' = ledger \<and> (\<forall>l. LedgerAppended l \<notin> set evs))
       \<and> (ledger' \<noteq> ledger \<longrightarrow> r = Inr True \<and> LedgerAppended post \<in> set evs)
       \<and> (\<forall>pre l suf. evs = pre @ LedgerAppended l # suf \<longrightarrow>
             r = Inr True \<and> l = post
             \<and> (\<exists>n pages. pages \<noteq> [] \<and> PdfSaved (final_pdf_path cfg n) pages \<in> set pre))
       \<and> fst (watch_entries cfg entries processed_urls start)
           \<subseteq> processed_urls \<union>
              {link e | e now env'. (e, now, env') \<in> set entries
                 \<and> (\<exists>led. fst (process_new_chapter env' cfg (link e) led) = Inr True)}"
  using process_new_chapter_shape[of env cfg post ledger]
proof
  assume "stopped_early (process_new_chapter env cfg post ledger) ledger"
  with assms have s: "r \<noteq> Inr True" "ledger' = ledger" "list_all quiet_event evs"
    by (simp_all add: stopped_early_def)
  from s(3) have no: "\<And>l. LedgerAppended l \<notin> set evs" using quiet_not_mem by blast
  have "\<And>pre l suf. evs \<noteq> pre @ LedgerAppended l # suf"
  proof
    fix pre l suf assume "evs = pre @ LedgerAppended l # suf"
    then have "LedgerAppended l \<in> set evs" by simp
    with no show False by blast
  qed
  with s no watch_entries_adds_only_successes[of cfg entries processed_urls start]
  show ?thesis by simp
next
  assume "\<exists>n pre pages.
             process_new_chapter env cfg post ledger =
               (Inr True,
                fst (save_processed_chapter (os_linesep cfg) (ledger_write_error env) post ledger),
                pre @ [PdfSaved (final_pdf_path cfg n) pages,
                       Log INFO (''PDF created successfully at: '' @ final_pdf_path cfg n)]
                    @ rmtree_logged env (chapter_temp_extract_dir cfg n)
                    @ snd (save_processed_chapter (os_linesep cfg) (ledger_write_error env)
                             post ledger)
                    @ [Log INFO (''Successfully processed chapter '' @ str_int n
                                 @ ''. PDF saved to '' @ final_pdf_path cfg n)])
            \<and> list_all quiet_event pre \<and> pages \<noteq> []
            \<and> DirsMade (chapter_temp_extract_dir cfg n) \<in> set pre"
  then obtain n pre0 pages where
    r: "r = Inr True"
    and l: "ledger' = fst (save_processed_chapter (os_linesep cfg) (ledger_write_error env) post ledger)"
    and e: "evs = (pre0 @ [PdfSaved (final_pdf_path cfg n) pages,
                       Log INFO (''PDF created successfully at: '' @ final_pdf_path cfg n)]
                    @ rmtree_logged env (chapter_temp_extract_dir cfg n))
                    @ (snd (save_processed_chapter (os_linesep cfg) (ledger_write_error env)
                             post ledger)
                    @ [Log INFO (''Successfully processed chapter '' @ str_int n
                                 @ ''. PDF saved to '' @ final_pdf_path cfg n)])"
    and q: "list_all quiet_event pre0" and pg: "pages \<noteq> []"
    using assms by auto
  let ?xs = "pre0 @ [PdfSaved (final_pdf_path cfg n) pages,
                       Log INFO (''PDF created successfully at: '' @ final_pdf_path cfg n)]
                    @ rmtree_logged env (chapter_temp_extract_dir cfg n)"
  let ?ys = "snd (save_processed_chapter (os_linesep cfg) (ledger_write_error env) post ledger)
                    @ [Log INFO (''Successfully processed chapter '' @ str_int n
                                 @ ''. PDF saved to '' @ final_pdf_path cfg n)]"
  have nx: "LedgerAppended l \<notin> set ?xs" for l
    using quiet_not_mem[OF q] by (auto simp: rmtree_logged_no_record)
  have ys: "LedgerAppended l \<in> set ?ys \<Longrightarrow> l = post" for l
    by (auto simp: save_processed_chapter_events split: option.splits)
  have c2: "ledger' \<noteq> ledger \<longrightarrow> r = Inr True \<and> LedgerAppended post \<in> set evs"
  proof
    assume "ledger' \<noteq> ledger"
    with l have "ledger_write_error env = None" using save_processed_chapter_file by blast
    then have "LedgerAppended post \<in> set ?ys" by (simp add: save_processed_chapter_events)
    with e r show "r = Inr True \<and> LedgerAppended post \<in> set evs" by simp
  qed
  have c3: "\<forall>pre l suf. evs = pre @ LedgerAppended l # suf \<longrightarrow>
             r = Inr True \<and> l = post
             \<and> (\<exists>n pages. pages \<noteq> [] \<and> PdfSaved (final_pdf_path cfg n) pages \<in> set pre)"
  proof (intro allI impI)
    fix pre l suf assume h: "evs = pre @ LedgerAppended l # suf"
    with e have "?xs @ ?ys = pre @ LedgerAppended l # suf" by simp
    from split_after_prefix[OF this nx] obtain us where
      u: "pre = ?xs @ us" "?ys = us @ LedgerAppended l # suf" by blast
    from u(2) have "LedgerAppended l \<in> set ?ys" by simp
    then have "l = post" by (rule ys)
    moreover from u(1) have "PdfSaved (final_pdf_path cfg n) pages \<in> set pre" by simp
    ultimately show "r = Inr True \<and> l = post
             \<and> (\<exists>n pages. pages \<noteq> [] \<and> PdfSaved (final_pdf_path cfg n) pages \<in> set pre)"
      using r pg by blast
  qed
  from r c2 c3 watch_entries_adds_only_successes[of cfg entries processed_urls start]
  show ?thesis by simp
qed

lemma example_run_records:
  "LedgerAppended ''https://blog.example/post/1502''
     \<in> set (snd (snd (process_new_chapter example_env example_config
                         ''https://blog.example/post/1502'' None)))"
  by code_simp

theorem ledger_only_after_success_witness:
  "fst (process_new_chapter example_env example_config ''https://blog.example/post/1502'' None)
     = Inr True
   \<and> (\<exists>pre suf n pages.
         snd (snd (process_new_chapter example_env example_config
                     ''https://blog.example/post/1502'' None))
           = pre @ LedgerAppended ''https://blog.example/post/1502'' # suf
         \<and> PdfSaved (final_pdf_path example_config n) pages \<in> set pre)"
proof -
  let ?X = "process_new_chapter example_env example_config ''https://blog.example/post/1502'' None"
  have e: "?X = (fst ?X, fst (snd ?X), snd (snd ?X))" by simp
  from example_run_records obtain pre suf where
    s: "snd (snd ?X) = pre @ LedgerAppended ''https://blog.example/post/1502'' # suf"
    by (meson split_list)
  from ledger_only_after_success[OF e, where entries = "[] :: (entry \<times> int \<times> int env) list"
       and processed_urls = "{}" and start = None] s
  have "fst ?X = Inr True
     \<and> (\<exists>n pages. pages \<noteq> [] \<and> PdfSaved (final_pdf_path example_config n) pages \<in> set pre)"
    by blast
  with s show ?thesis by blast
qed

section \<open>The extraction directory is cleaned up after a successful assembly\<close>

text \<open>
  Claim C7, as amended. In every run of the pipeline in which the output document was
  written, the run returns success, whether or not the removal of the scratch extraction
  directory succeeds: when it succeeds the directory made in this run is removed before
  any Ledger record; when it fails the error is logged and no directory is removed. In
  both cases the link is recorded when the append to the backing file succeeds.
\<close>

theorem cleanup_before_record:
  fixes env :: "('t::linorder, 'x) env_scheme"
  assumes "process_new_chapter env cfg post ledger = (r, ledger', evs)"
      and "PdfSaved pdf pages \<in> set evs"
  shows "r = Inr True
       \<and> (\<exists>n. pdf = final_pdf_path cfg n
              \<and> DirsMade (chapter_temp_extract_dir cfg n) \<in> set evs
              \<and> (case rmtree_error env (chapter_temp_extract_dir cfg n) of
                   None \<Rightarrow>
                     TreeRemoved (chapter_temp_extract_dir cfg n) \<in> set evs
                     \<and> (\<forall>pre l suf. evs = pre @ LedgerAppended l # suf \<longrightarrow>
                           TreeRemoved (chapter_temp_extract_dir cfg n) \<in> set pre)
                 | Some e \<Rightarrow>
                     Log ERROR (''Error removing temporary directory ''
                                @ chapter_temp_extract_dir cfg n @ '': '' @ e) \<in> set evs
                     \<and> (\<forall>d. TreeRemoved d \<notin> set evs)))
       \<and> (ledger_write_error env = None \<longrightarrow> LedgerAppended post \<in> set evs)"
  using process_new_chapter_shape[of env cfg post ledger]
proof
  assume "stopped_early (process_new_chapter env cfg post ledger) ledger"
  with assms(1) have "list_all quiet_event evs" by (simp add: stopped_early_def)
  with assms(2) show ?thesis using quiet_not_mem by blast
next
  assume "\<exists>n pre pages.
             process_new_chapter env cfg post ledger =
               (Inr True,
                fst (save_processed_chapter (os_linesep cfg) (ledger_write_error env) post ledger),
                pre @ [PdfSaved (final_pdf_path cfg n) pages,
                       Log INFO (''PDF created successfully at: '' @ final_pdf_path cfg n)]
                    @ rmtree_logged env (chapter_temp_extract_dir cfg n)
                    @ snd (save_processed_chapter (os_linesep cfg) (ledger_write_error env)
                             post ledger)
                    @ [Log INFO (''Successfully processed chapter '' @ str_int n
                                 @ ''. PDF saved to '' @ final_pdf_path cfg n)])
            \<and> list_all quiet_event pre \<and> pages \<noteq> []
            \<and> DirsMade (chapter_temp_extract_dir cfg n) \<in> set pre"
  then obtain n pre0 pages0 where
    r: "r = Inr True"
    and e: "evs = (pre0 @ [PdfSaved (final_pdf_path cfg n) pages0,
                       Log INFO (''PDF created successfully at: '' @ final_pdf_path cfg n)]
                    @ rmtree_logged env (chapter_temp_extract_dir cfg n))
                    @ (snd (save_processed_chapter (os_linesep cfg) (ledger_write_error env)
                             post ledger)
                    @ [Log INFO (''Successfully processed chapter '' @ str_int n
                                 @ ''. PDF saved to '' @ final_pdf_path cfg n)])"
    and q: "list_all quiet_event pre0"
    and dm: "DirsMade (chapter_temp_extract_dir cfg n) \<in> set pre0"
    using assms(1) by auto
  let ?d = "chapter_temp_extract_dir cfg n"
  let ?xs = "pre0 @ [PdfSaved (final_pdf_path cfg n) pages0,
                       Log INFO (''PDF created successfully at: '' @ final_pdf_path cfg n)]
                    @ rmtree_logged env ?d"
  let ?ys = "snd (save_processed_chapter (os_linesep cfg) (ledger_write_error env) post ledger)
                    @ [Log INFO (''Successfully processed chapter '' @ str_int n
                                 @ ''. PDF saved to '' @ final_pdf_path cfg n)]"
  have nx: "LedgerAppended l \<notin> set ?xs" for l
    using quiet_not_mem[OF q] by (auto simp: rmtree_logged_no_record)
  have ny: "PdfSaved a b \<notin> set ?ys" "TreeRemoved c \<notin> set ?ys" for a b c
    by (auto simp: save_processed_chapter_events split: option.splits)
  have pdf: "pdf = final_pdf_path cfg n"
    using assms(2) quiet_not_mem[OF q] ny unfolding e
    by (auto simp: rmtree_logged_def split: option.splits)
  have dme: "DirsMade ?d \<in> set evs" unfolding e using dm by simp
  have rec: "ledger_write_error env = None \<longrightarrow> LedgerAppended post \<in> set evs"
    unfolding e by (auto simp: save_processed_chapter_events)
  have cl: "(case rmtree_error env ?d of
                   None \<Rightarrow>
                     TreeRemoved ?d \<in> set evs
                     \<and> (\<forall>pre l suf. evs = pre @ LedgerAppended l # suf \<longrightarrow>
                           TreeRemoved ?d \<in> set pre)
                 | Some e \<Rightarrow>
                     Log ERROR (''Error removing temporary directory '' @ ?d @ '': '' @ e)
                       \<in> set evs
                     \<and> (\<forall>d. TreeRemoved d \<notin> set evs))"
  proof (cases "rmtree_error env ?d")
    case None
    then have t0: "TreeRemoved ?d \<in> set (rmtree_logged env ?d)"
      by (simp add: rmtree_logged_def)
    then have t: "TreeRemoved ?d \<in> set ?xs" by simp
    have "TreeRemoved ?d \<in> set evs" unfolding e using t0 by simp
    moreover have "TreeRemoved ?d \<in> set pre" if "evs = pre @ LedgerAppended l # suf" for pre l suf
    proof -
      from that e have "?xs @ ?ys = pre @ LedgerAppended l # suf" by simp
      from split_after_prefix[OF this nx] obtain us where "pre = ?xs @ us" by blast
      then have "set ?xs \<subseteq> set pre" by auto
      with t show ?thesis by blast
    qed
    ultimately show ?thesis using None by simp
  next
    case (Some er)
    then have "Log ERROR (''Error removing temporary directory '' @ ?d @ '': '' @ er) \<in> set evs"
      unfolding e by (simp add: rmtree_logged_def)
    moreover have "TreeRemoved d \<notin> set evs" for d
      unfolding e using Some quiet_not_mem[OF q] ny by (auto simp: rmtree_logged_def)
    ultimately show ?thesis using Some by simp
  qed
  from r pdf dme cl rec show ?thesis by blast
qed

theorem cleanup_before_record_witness:
  "fst (process_new_chapter example_env example_config ''https://blog.example/post/1502'' None)
     = Inr True
   \<and> TreeRemoved ''/app/temp_downloads/chapter_1502''
       \<in> set (snd (snd (process_new_chapter example_env example_config
                           ''https://blog.example/post/1502'' None)))"
proof -
  let ?X = "process_new_chapter example_env example_config ''https://blog.example/post/1502'' None"
  have e: "?X = (fst ?X, fst (snd ?X), snd (snd ?X))" by simp
  have p: "PdfSaved ''/out/One Piece - 1502.pdf''
             [''/app/temp_downloads/chapter_1502/c1502_p01.jpg'',
              ''/app/temp_downloads/chapter_1502/c1502_p02.jpg''] \<in> set (snd (snd ?X))"
    by code_simp
  have t: "TreeRemoved ''/app/temp_downloads/chapter_1502'' \<in> set (snd (snd ?X))"
    by code_simp
  from cleanup_before_record[OF e p] t show ?thesis by blast
qed

text \<open>
  The claim as stated fails: a run whose extraction directory holds no image reaches the
  assembly, which fails, and the run returns without removing the directory it made.
\<close>

theorem cleanup_skipped_counterexample:
  "fst (process_new_chapter (example_env\<lparr>dir_of := (\<lambda>p. Some [(''notes.txt'', File None)])\<rparr>)
          example_config ''https://blog.example/post/1502'' None) = Inr False
   \<and> DirsMade ''/app/temp_downloads/chapter_1502''
       \<in> set (snd (snd (process_new_chapter
             (example_env\<lparr>dir_of := (\<lambda>p. Some [(''notes.txt'', File None)])\<rparr>)
             example_config ''https://blog.example/post/1502'' None)))
   \<and> Log INFO (''Converting images in /app/temp_downloads/chapter_1502 to PDF: ''
                @ ''/out/One Piece - 1502.pdf'')
       \<in> set (snd (snd (process_new_chapter
             (example_env\<lparr>dir_of := (\<lambda>p. Some [(''notes.txt'', File None)])\<rparr>)
             example_config ''https://blog.example/post/1502'' None)))
   \<and> TreeRemoved ''/app/temp_downloads/chapter_1502''
       \<notin> set (snd (snd (process_new_chapter
             (example_env\<lparr>dir_of := (\<lambda>p. Some [(''notes.txt'', File None)])\<rparr>)
             example_config ''https://blog.example/post/1502'' None)))"
  by code_simp

section \<open>The chapter number comes from the archive file name only\<close>

text \<open>
  Claim C6, as amended. The pipeline derives the chapter number from the archive file name
  alone. When the archive file name yields no number the chapter is rejected: the run
  does not return success, nothing is written, removed as a directory or recorded, the
  Ledger and the in-memory set are as they were, and the scratch archive is removed
  (when that removal does not fail, the run returns failure). The title of the entry is
  arbitrary here: it plays no part.
\<close>

theorem chapter_number_from_file_name_only:
  fixes env :: "('t::linorder) env"
  assumes "get_mega_file_url (http_get env) (link e) = (Some mega_link, ev1)"
      and "mega_link \<noteq> []"
      and "download_from_mega (mega_download env) (path_exists env) (dir_of env) (getmtime env)
             mega_link (TEMP_DIR cfg) = (Inr (Some (p, f)), ev2)"
      and "p \<noteq> []"
      and "fst (get_chapter_number_from_filename f) = None"
  shows "fst (process_new_chapter env cfg (link e) ledger) \<noteq> Inr True
       \<and> fst (snd (process_new_chapter env cfg (link e) ledger)) = ledger
       \<and> list_all quiet_event (snd (snd (process_new_chapter env cfg (link e) ledger)))
       \<and> (remove_error env p = None \<longrightarrow>
             fst (process_new_chapter env cfg (link e) ledger) = Inr False
             \<and> FileRemoved p \<in> set (snd (snd (process_new_chapter env cfg (link e) ledger))))
       \<and> fst (watch_entries cfg [(e, now, env)] processed_urls ledger) = processed_urls
       \<and> fst (snd (watch_entries cfg [(e, now, env)] processed_urls ledger)) = ledger"
proof -
  obtain ev3 where c: "get_chapter_number_from_filename f = (None, ev3)"
    using assms(5) by (cases "get_chapter_number_from_filename f") auto
  let ?evs = "[Log INFO (''Processing new chapter from post: '' @ link e)] @ ev1 @ ev2 @ ev3 @
               [Log ERROR (''Could not determine chapter number from RAR filename: '' @ f
                           @ ''. Skipping.'')]"
  have eq: "process_new_chapter env cfg (link e) ledger = remove_or_raise env p ledger ?evs"
    using assms(1-4) c by (simp add: process_new_chapter_def Let_def)
  have qq: "list_all quiet_event ?evs"
    using get_mega_file_url_quiet[OF assms(1)] download_from_mega_quiet[OF assms(3)]
      get_chapter_number_from_filename_quiet[OF c] by simp
  obtain r l' ev' where rr: "remove_or_raise env p ledger ?evs = (r, l', ev')"
    using prod_cases3 by blast
  from remove_or_raise_quiet[OF qq rr] have s: "r \<noteq> Inr True" "l' = ledger" "list_all quiet_event ev'"
    by auto
  have rm: "remove_error env p = None \<longrightarrow> r = Inr False \<and> FileRemoved p \<in> set ev'"
    using rr by (auto simp: remove_or_raise_def)
  have w: "fst (watch_entries cfg [(e, now, env)] processed_urls ledger) = processed_urls
       \<and> fst (snd (watch_entries cfg [(e, now, env)] processed_urls ledger)) = ledger"
    using eq rr s(1,2) by (cases r) (auto simp: Let_def)
  from eq rr s rm w show ?thesis by simp
qed

text \<open>
  The claim as stated fails: the title of the entry contains the number 1502, the archive
  file name yields none, and the chapter is rejected.
\<close>

theorem title_fallback_counterexample:
  "get_chapter_number_from_title (title example_entry) = Some 1502
   \<and> fst (get_chapter_number_from_filename ''OnePiece_1502.rar'') = None
   \<and> fst (process_new_chapter
            (example_env\<lparr>mega_download := (\<lambda>u d. MegaReturns (Some ''OnePiece_1502.rar''))\<rparr>)
            example_config (link example_entry) None) = Inr False
   \<and> fst (watch_entries example_config
            [(example_entry, 3600000000,
              example_env\<lparr>mega_download := (\<lambda>u d. MegaReturns (Some ''OnePiece_1502.rar''))\<rparr>)]
            {} None) = {}"
  by code_simp

theorem chapter_number_from_file_name_only_witness:
  "fst (process_new_chapter
            (example_env\<lparr>mega_download := (\<lambda>u d. MegaReturns (Some ''OnePiece_1502.rar''))\<rparr>)
            example_config (link example_entry) None) = Inr False
   \<and> fst (snd (process_new_chapter
            (example_env\<lparr>mega_download := (\<lambda>u d. MegaReturns (Some ''OnePiece_1502.rar''))\<rparr>)
            example_config (link example_entry) None)) = None"
proof -
  let ?env = "example_env\<lparr>mega_download := (\<lambda>u d. MegaReturns (Some ''OnePiece_1502.rar''))\<rparr>"
  have 1: "get_mega_file_url (http_get ?env) (link example_entry)
     = (Some ''https://mega.nz/file/abc'', snd (get_mega_file_url (http_get ?env) (link example_entry)))"
    by (simp add: get_mega_file_url_def example_env_def startswith_def)
  have 2: "''https://mega.nz/file/abc'' \<noteq> []" by simp
  have 3: "download_from_mega (mega_download ?env) (path_exists ?env) (dir_of ?env) (getmtime ?env)
             ''https://mega.nz/file/abc'' (TEMP_DIR example_config)
      = (Inr (Some (''/app/temp_downloads/OnePiece_1502.rar'', ''OnePiece_1502.rar'')),
         snd (download_from_mega (mega_download ?env) (path_exists ?env) (dir_of ?env) (getmtime ?env)
             ''https://mega.nz/file/abc'' (TEMP_DIR example_config)))"
    by (simp add: download_from_mega_def example_env_def example_config_def join_def startswith_def endswith_def)
  have 4: "''/app/temp_downloads/OnePiece_1502.rar'' \<noteq> []" by simp
  have 5: "fst (get_chapter_number_from_filename ''OnePiece_1502.rar'') = None" by code_simp
  have 6: "remove_error ?env ''/app/temp_downloads/OnePiece_1502.rar'' = None"
    by (simp add: example_env_def)
  from chapter_number_from_file_name_only[OF 1 2 3 4 5, of None] 6 show ?thesis by blast
qed


section \<open>Every key is a string\<close>

lemma join_has_slash: "folder \<noteq> [] \<Longrightarrow> CHR ''/'' \<in> set (join folder f)"
proof -
  assume n: "folder \<noteq> []"
  have "CHR ''/'' \<in> set f" if "startswith f ''/''"
    using that by (cases f) (auto simp: startswith_def)
  moreover have "CHR ''/'' \<in> set folder" if "endswith folder ''/''"
  proof -
    from that n have "drop (length folder - 1) folder = ''/''" by (simp add: endswith_def)
    then have "CHR ''/'' \<in> set (drop (length folder - 1) folder)" by simp
    then show ?thesis by (meson in_set_dropD)
  qed
  ultimately show ?thesis using n by (auto simp: join_def)
qed

lemma take_basename_start:
  assumes "CHR ''/'' \<in> set p"
  shows "CHR ''/'' \<in> set (take (basename_start p) p)"
proof -
  let ?P = "\<lambda>c. c \<noteq> CHR ''/''"
  have r: "rev p = takeWhile ?P (rev p) @ dropWhile ?P (rev p)" by simp
  have ne: "dropWhile ?P (rev p) \<noteq> []" using assms by (simp add: dropWhile_eq_Nil_conv)
  then have h: "hd (dropWhile ?P (rev p)) = CHR ''/''" using hd_dropWhile[of ?P "rev p"] by blast
  have "p = rev (dropWhile ?P (rev p)) @ rev (takeWhile ?P (rev p))"
    using r by (metis rev_append rev_rev_ident)
  moreover have "length (rev (dropWhile ?P (rev p))) = basename_start p"
    unfolding basename_start_def
    by (metis r length_append length_rev add_diff_cancel_left')
  ultimately have "take (basename_start p) p = rev (dropWhile ?P (rev p))"
    by (metis append_eq_conv_conj)
  moreover have "CHR ''/'' \<in> set (dropWhile ?P (rev p))" using ne h by (metis list.set_sel(1))
  ultimately show ?thesis by simp
qed

lemma splitext_keeps_slash:
  assumes "CHR ''/'' \<in> set p"
  shows "CHR ''/'' \<in> set (fst (splitext p))"
  using assms take_basename_start[OF assms] by (auto simp: splitext_def Let_def)

lemma split_go_keeps:
  assumes "sep \<noteq> []" "c \<notin> set sep"
  shows "set (take k s) \<subseteq> set sep \<Longrightarrow> c \<in> set acc \<union> set s \<Longrightarrow>
         c \<in> \<Union> (set ` set (split_go sep k acc s))"
proof (induction s arbitrary: k acc)
  case Nil
  then show ?case by simp
next
  case (Cons x xs)
  show ?case
  proof (cases "0 < k")
    case True
    then obtain k' where k: "k = Suc k'" by (cases k) auto
    with Cons.prems have x: "x \<in> set sep" "set (take k' xs) \<subseteq> set sep" by auto
    with assms(2) Cons.prems(2) have "c \<in> set acc \<union> set xs" by auto
    from Cons.IH[OF x(2) this] k show ?thesis by simp
  next
    case False
    then have k: "k = 0" by simp
    show ?thesis
    proof (cases "startswith (x # xs) sep")
      case True
      obtain y ys where sep: "sep = y # ys" using assms(1) by (cases sep) auto
      from True sep have xy: "x = y" and t: "take (length ys) xs = ys"
        by (auto simp: startswith_def)
      have inv: "set (take (length sep - 1) xs) \<subseteq> set sep" using t sep by auto
      show ?thesis
      proof (cases "c \<in> set acc")
        case True
        then show ?thesis using k \<open>startswith (x # xs) sep\<close> by simp
      next
        case False
        with Cons.prems(2) xy sep assms(2) have "c \<in> set [] \<union> set xs" by auto
        from Cons.IH[OF inv this] k \<open>startswith (x # xs) sep\<close> show ?thesis by simp
      qed
    next
      case False
      have "set (take 0 xs) \<subseteq> set sep" by simp
      moreover have "c \<in> set (x # acc) \<union> set xs" using Cons.prems(2) by auto
      ultimately have "c \<in> \<Union> (set ` set (split_go sep 0 (x # acc) xs))" by (rule Cons.IH)
      with k False show ?thesis by simp
    qed
  qed
qed

lemma split_keeps:
  "sep \<noteq> [] \<Longrightarrow> c \<notin> set sep \<Longrightarrow> c \<in> set s \<Longrightarrow> c \<in> \<Union> (set ` set (split s sep))"
  unfolding split_def by (rule split_go_keeps) auto

lemma int_body_rejects:
  "c \<in> set ds \<Longrightarrow> \<not> is_decimal c \<Longrightarrow> c \<noteq> CHR ''_'' \<Longrightarrow> \<not> int_body prev ds"
  by (induction ds arbitrary: prev) auto

lemma dropWhile_keeps: "c \<in> set s \<Longrightarrow> \<not> P c \<Longrightarrow> c \<in> set (dropWhile P s)"
  by (induction s) auto

lemma py_int_slash:
  assumes "CHR ''/'' \<in> set s"
  shows "py_int s = None"
proof -
  let ?t = "rev (dropWhile int_space (rev (dropWhile int_space s)))"
  let ?ds = "if ?t \<noteq> [] \<and> (hd ?t = CHR ''-'' \<or> hd ?t = CHR ''+'') then tl ?t else ?t"
  have ns: "\<not> int_space (CHR ''/'')" by (simp add: int_space_def)
  have "CHR ''/'' \<in> set (dropWhile int_space s)" using assms ns by (rule dropWhile_keeps)
  then have "CHR ''/'' \<in> set (rev (dropWhile int_space s))" by simp
  then have "CHR ''/'' \<in> set (dropWhile int_space (rev (dropWhile int_space s)))"
    using ns by (rule dropWhile_keeps)
  then have t: "CHR ''/'' \<in> set ?t" by simp
  have "CHR ''/'' \<in> set ?ds"
  proof (cases "?t \<noteq> [] \<and> (hd ?t = CHR ''-'' \<or> hd ?t = CHR ''+'')")
    case True
    then have "CHR ''/'' \<noteq> hd ?t" by auto
    with t True have "CHR ''/'' \<in> set (tl ?t)" by (metis list.collapse set_ConsD)
    with True show ?thesis by simp
  next
    case False
    with t show ?thesis by auto
  qed
  moreover have "\<not> is_decimal (CHR ''/'')" by (simp add: is_decimal_def)
  ultimately have "\<not> int_body False ?ds" using int_body_rejects by blast
  then show ?thesis unfolding py_int_def Let_def by simp
qed

lemma sort_key_py_path:
  assumes "CHR ''/'' \<in> set p"
  shows "sort_key_py p = KStr p"
proof (cases "length (split (fst (splitext p)) ''_p'') = 2")
  case False
  then show ?thesis by (simp add: sort_key_py_def Let_def)
next
  case True
  then obtain a r where ar: "split (fst (splitext p)) ''_p'' = a # r" "length r = 1"
    by (cases "split (fst (splitext p)) ''_p''") auto
  then obtain b where "r = [b]" by (cases r) auto
  with ar have ab: "split (fst (splitext p)) ''_p'' = [a, b]" by simp
  have "CHR ''/'' \<in> \<Union> (set ` set (split (fst (splitext p)) ''_p''))"
    using splitext_keeps_slash[OF assms] by (intro split_keeps) auto
  with ab have "CHR ''/'' \<in> set a \<or> CHR ''/'' \<in> set b" by simp
  then have "py_int (replace_char (CHR ''c'') a) = None \<or> py_int b = None"
    using py_int_slash by (auto simp: replace_char_def)
  with ab show ?thesis by (auto simp: sort_key_py_def Let_def split: option.splits)
qed

section \<open>Sorting with string keys\<close>

lemma those_map_Some:
  "\<forall>x \<in> set xs. f x = Some (g x) \<Longrightarrow> those (map f xs) = Some (map g xs)"
  by (induction xs) auto

lemma those_map_None:
  "x \<in> set xs \<Longrightarrow> f x = None \<Longrightarrow> those (map f xs) = None"
  by (induction xs) (auto split: option.splits)

lemma insort_key_map:
  "insort_key f (h x) (map h ys) = map h (insort_key (\<lambda>y. f (h y)) x ys)"
  by (induction ys) auto

lemma sort_key_map: "sort_key f (map h xs) = map h (sort_key (\<lambda>y. f (h y)) xs)"
  by (induction xs) (auto simp: insort_key_map)

lemma sorted_py_strings:
  assumes "\<forall>x \<in> set xs. kf x = KStr (g x)"
  shows "sorted_py kf xs = Inr (sort_key g xs)"
proof (cases xs)
  case Nil
  then show ?thesis by (simp add: sorted_py_def)
next
  case (Cons x xs')
  have z: "zip (map g xs) xs = map (\<lambda>x. (g x, x)) xs" by (induction xs) auto
  have "(tuple_of \<circ> kf) x = None" using assms Cons by simp
  then have t: "those (map (tuple_of \<circ> kf) xs) = None"
    using those_map_None[of x xs "tuple_of \<circ> kf"] Cons by simp
  have s: "those (map (str_of \<circ> kf) xs) = Some (map g xs)"
    using assms by (intro those_map_Some) simp
  have "map snd (sort_key fst (zip (map g xs) xs)) = sort_key g xs"
    unfolding z sort_key_map by (simp add: comp_def)
  with t s show ?thesis by (simp add: sorted_py_def)
qed

lemma sorted_py_paths:
  assumes "folder \<noteq> []"
  shows "sorted_py sort_key_py (map (join folder) names) = Inr (sort (map (join folder) names))"
proof -
  have "\<forall>p \<in> set (map (join folder) names). sort_key_py p = KStr p"
    using join_has_slash[OF assms] sort_key_py_path by auto
  from sorted_py_strings[OF this] show ?thesis .
qed

section \<open>The order of paths is the order of names\<close>


lemma join_name: "CHR ''/'' \<notin> set f \<Longrightarrow> join folder f = dir_prefix folder @ f"
proof -
  assume a: "CHR ''/'' \<notin> set f"
  have "\<not> startswith f ''/''"
  proof
    assume "startswith f ''/''"
    then have "CHR ''/'' \<in> set f" by (cases f) (auto simp: startswith_def)
    with a show False by simp
  qed
  then show ?thesis by (simp add: join_def dir_prefix_def)
qed




section \<open>What the assembler returns\<close>

lemma images_to_pdf_result:
  assumes "tree folder = Some entries" "folder \<noteq> []"
  shows "images_to_pdf tree se folder pdf n =
     (let ev0 = Log INFO (''Converting images in '' @ folder @ '' to PDF: '' @ pdf);
          paths = sort (map (join folder) (filter is_image_name (map fst entries)));
          imgs = filter (\<lambda>p. open_image tree folder p = None) paths;
          evs = snd (open_all (open_image tree folder) paths)
      in if paths = []
         then (Inr False,
               [ev0, Log WARNING (''No valid images found in '' @ folder @ '' to create PDF.'')])
         else if imgs = []
         then (Inr False, ev0 # evs @ [Log WARNING ''No valid images to create PDF.''])
         else (case se of
                 None \<Rightarrow>
                   (Inr True,
                    ev0 # evs @ [PdfSaved pdf imgs,
                                 Log INFO (''PDF created successfully at: '' @ pdf)])
               | Some e \<Rightarrow>
                   (Inr False,
                    ev0 # evs @ [Log ERROR (''Error saving PDF '' @ pdf @ '': '' @ e)])))"
proof -
  let ?paths = "sort (map (join folder) (filter is_image_name (map fst entries)))"
  have l: "listdir tree folder = Inr (map fst entries)" using assms by (simp add: listdir_def)
  have s: "sorted_py sort_key_py (map (join folder) (filter is_image_name (map fst entries)))
             = Inr ?paths"
    using sorted_py_paths[OF assms(2)] by simp
  obtain imgs evs where o: "open_all (open_image tree folder) ?paths = (imgs, evs)" by fastforce
  then have i: "imgs = filter (\<lambda>p. open_image tree folder p = None) ?paths"
    using open_all_images[of "open_image tree folder" ?paths] by simp
  show ?thesis
    using o i by (simp add: images_to_pdf_def l s Let_def split: option.splits)
qed

section \<open>When the assembler fails\<close>

text \<open>
  Claim C4, as amended. For a directory that exists, the Document Assembler returns
  failure exactly when no file with an image extension (png, jpg, jpeg, in any case) is
  present, or every selected image fails to open, or saving the document fails; in the
  first two cases no document is written. It returns success exactly when at least one
  image opens and the save succeeds, and then the document it writes is made of exactly
  the images that loaded, in the order of the sort.
\<close>

theorem assembler_failure_cases:
  assumes "tree folder = Some entries" and "folder \<noteq> []"
  shows "let names = filter is_image_name (map fst entries);
             paths = sort (map (join folder) names);
             imgs = filter (\<lambda>p. open_image tree folder p = None) paths;
             res = images_to_pdf tree se folder pdf n
         in (fst res = Inr False) = (names = [] \<or> imgs = [] \<or> se \<noteq> None)
          \<and> (fst res = Inr True) = (imgs \<noteq> [] \<and> se = None)
          \<and> (names = [] \<or> imgs = [] \<longrightarrow> list_all quiet_event (snd res))
          \<and> (imgs \<noteq> [] \<and> se = None \<longrightarrow>
                (\<exists>pre. snd res = pre @ [PdfSaved pdf imgs,
                                         Log INFO (''PDF created successfully at: '' @ pdf)]
                       \<and> list_all quiet_event pre))
          \<and> sorted imgs
          \<and> set imgs = {p \<in> join folder ` set names. open_image tree folder p = None}"
proof -
  let ?names = "filter is_image_name (map fst entries)"
  let ?paths = "sort (map (join folder) ?names)"
  let ?imgs = "filter (\<lambda>p. open_image tree folder p = None) ?paths"
  let ?res = "images_to_pdf tree se folder pdf n"
  let ?evs = "snd (open_all (open_image tree folder) ?paths)"
  let ?ev0 = "Log INFO (''Converting images in '' @ folder @ '' to PDF: '' @ pdf)"
  note r = images_to_pdf_result[where tree = tree and folder = folder and se = se and pdf = pdf and n = n, OF assms]
  have q: "list_all quiet_event ?evs" by (rule open_all_quiet)
  have pn: "(?paths = []) = (?names = [])"
    by (metis length_0_conv length_map length_sort)
  have ie: "?imgs = []" if "?names = []" using that pn by simp
  have 1: "(fst ?res = Inr False) = (?names = [] \<or> ?imgs = [] \<or> se \<noteq> None)"
    unfolding r using pn ie by (auto simp: Let_def split: option.splits)
  have 2: "(fst ?res = Inr True) = (?imgs \<noteq> [] \<and> se = None)"
    unfolding r using pn ie by (auto simp: Let_def split: option.splits)
  have 3: "?names = [] \<or> ?imgs = [] \<longrightarrow> list_all quiet_event (snd ?res)"
    unfolding r using pn q by (auto simp: Let_def split: option.splits)
  have 4: "?imgs \<noteq> [] \<and> se = None \<longrightarrow>
                (\<exists>pre. snd ?res = pre @ [PdfSaved pdf ?imgs,
                                         Log INFO (''PDF created successfully at: '' @ pdf)]
                       \<and> list_all quiet_event pre)"
  proof
    assume a: "?imgs \<noteq> [] \<and> se = None"
    then have "?paths \<noteq> []" by auto
    with a have "snd ?res = (?ev0 # ?evs) @ [PdfSaved pdf ?imgs,
                                         Log INFO (''PDF created successfully at: '' @ pdf)]"
      unfolding r by (simp add: Let_def)
    moreover have "list_all quiet_event (?ev0 # ?evs)" using q by simp
    ultimately show "\<exists>pre. snd ?res = pre @ [PdfSaved pdf ?imgs,
                                         Log INFO (''PDF created successfully at: '' @ pdf)]
                       \<and> list_all quiet_event pre" by blast
  qed
  have 5: "sorted ?imgs" by (simp add: sorted_filter[where f = "\<lambda>x. x", simplified])
  have 6: "set ?imgs = {p \<in> join folder ` set ?names. open_image tree folder p = None}"
    by auto
  from 1 2 3 4 5 6 show ?thesis unfolding Let_def by blast
qed

text \<open>
  The claim as stated fails: an image is present and opens, and the assembler still
  returns failure, because saving the document fails.
\<close>

theorem assembler_save_failure_counterexample:
  "fst (images_to_pdf (\<lambda>p. Some [(''c1_p1.jpg'', File None)])
          (Some ''[Errno 2] No such file or directory'')
          ''/app/temp_downloads/chapter_1'' ''/out/One Piece - 0001.pdf'' 1) = Inr False
   \<and> is_image_name ''c1_p1.jpg''
   \<and> open_image (\<lambda>p. Some [(''c1_p1.jpg'', File None)]) ''/app/temp_downloads/chapter_1''
        ''/app/temp_downloads/chapter_1/c1_p1.jpg'' = None"
  by code_simp

theorem assembler_failure_cases_witness:
  "fst (images_to_pdf
          (\<lambda>p. Some [(''c1_p1.jpg'', File None), (''cover.PNG'', File (Some ''truncated''))])
          None ''/app/temp_downloads/chapter_1'' ''/out/One Piece - 0001.pdf'' 1) = Inr True"
proof -
  let ?tree = "\<lambda>p::string. Some [(''c1_p1.jpg'', File None), (''cover.PNG'', File (Some ''truncated''))]"
  have a: "?tree ''/app/temp_downloads/chapter_1''
             = Some [(''c1_p1.jpg'', File None), (''cover.PNG'', File (Some ''truncated''))]"
    by simp
  have b: "''/app/temp_downloads/chapter_1'' \<noteq> []" by simp
  have c: "filter (\<lambda>p. open_image ?tree ''/app/temp_downloads/chapter_1'' p = None)
             (sort (map (join ''/app/temp_downloads/chapter_1'')
                (filter is_image_name
                   (map fst [(''c1_p1.jpg'', File None), (''cover.PNG'', File (Some ''truncated''))]))))
           \<noteq> []"
    by code_simp
  from assembler_failure_cases[where tree = ?tree and folder = "''/app/temp_downloads/chapter_1''"
      and se = None and pdf = "''/out/One Piece - 0001.pdf''" and n = 1, OF a b] c
  show ?thesis unfolding Let_def by blast
qed


section \<open>Keys of one kind are ordered, keys of two kinds are not\<close>








section \<open>Only the top level of the directory is read\<close>

lemma wf_names_top:
  "wf_names es \<Longrightarrow> (f, nd) \<in> set es \<Longrightarrow> f \<noteq> [] \<and> CHR ''/'' \<notin> set f"
  by (induction es rule: wf_names.induct) auto

lemma wf_names_sub:
  "wf_names es \<Longrightarrow> (d, Dir sub) \<in> set es \<Longrightarrow> wf_names sub"
  by (induction es rule: wf_names.induct) auto

lemma open_image_None:
  assumes "tree folder = Some entries" and "open_image tree folder p = None"
  shows "\<exists>name. (name, File None) \<in> set entries \<and> join folder name = p"
proof -
  let ?P = "\<lambda>(name, nd). join folder name = p"
  from assms obtain name where f: "find ?P entries = Some (name, File None)"
    by (auto simp: open_image_def split: option.splits prod.splits node.splits)
  have fs: "find Q xs = Some x \<Longrightarrow> x \<in> set xs \<and> Q x"
    for Q :: "string \<times> node \<Rightarrow> bool" and xs x
    by (induction xs) (auto split: if_splits)
  from fs[OF f] have "(name, File None) \<in> set entries" "join folder name = p" by auto
  then show ?thesis by blast
qed

lemma join_inject:
  "CHR ''/'' \<notin> set a \<Longrightarrow> CHR ''/'' \<notin> set b \<Longrightarrow> join folder a = join folder b \<Longrightarrow> a = b"
  by (simp add: join_name)

lemma not_endswith_slash:
  assumes "f \<noteq> []" "CHR ''/'' \<notin> set f"
  shows "\<not> endswith (pre @ f) ''/''"
proof
  assume "endswith (pre @ f) ''/''"
  then have "drop (length (pre @ f) - 1) (pre @ f) = ''/''" by (simp add: endswith_def)
  moreover have "drop (length (pre @ f) - 1) (pre @ f) = [last f]"
  proof -
    define xs where "xs = pre @ butlast f"
    have e: "pre @ f = xs @ [last f]" using assms(1) by (simp add: xs_def)
    show ?thesis unfolding e by simp
  qed
  ultimately have "last f = CHR ''/''" by simp
  with assms show False using last_in_set by metis
qed

lemma join_under:
  assumes "D \<noteq> []" "\<not> endswith D ''/''" "CHR ''/'' \<notin> set f"
  shows "join D f = D @ ''/'' @ f"
  using assms by (simp add: join_name dir_prefix_def)

lemma files_below_prefix:
  "wf_names sub \<Longrightarrow> D \<noteq> [] \<Longrightarrow> \<not> endswith D ''/'' \<Longrightarrow> q \<in> set (files_below D sub) \<Longrightarrow>
     \<exists>rest. q = D @ ''/'' @ rest"
proof (induction D sub arbitrary: q rule: files_below.induct)
  case (1 d)
  then show ?case by simp
next
  case (2 d f r es)
  then have f: "CHR ''/'' \<notin> set f" and w: "wf_names es" by auto
  from 2(5) have "q = join d f \<or> q \<in> set (files_below d es)" by auto
  then show ?case
  proof
    assume "q = join d f"
    with join_under[OF 2(3,4) f] show ?thesis by blast
  next
    assume "q \<in> set (files_below d es)"
    from 2(1)[OF w 2(3,4) this] show ?thesis .
  qed
next
  case (3 d f sub es)
  then have f: "f \<noteq> []" "CHR ''/'' \<notin> set f" and ws: "wf_names sub" and w: "wf_names es"
    by auto
  have j: "join d f = d @ ''/'' @ f" using join_under[OF 3(4,5) f(2)] .
  have jn: "join d f \<noteq> []" using j by simp
  have je: "\<not> endswith (join d f) ''/''"
    unfolding j using not_endswith_slash[OF f, of "d @ ''/''"] by simp
  from 3(6) have "q \<in> set (files_below (join d f) sub) \<or> q \<in> set (files_below d es)" by auto
  then show ?case
  proof
    assume "q \<in> set (files_below (join d f) sub)"
    from 3(1)[OF ws jn je this] obtain rest where "q = join d f @ ''/'' @ rest" by blast
    then have "q = d @ ''/'' @ (f @ ''/'' @ rest)" using j by simp
    then show ?thesis by blast
  next
    assume "q \<in> set (files_below d es)"
    from 3(2)[OF w 3(4,5) this] show ?thesis .
  qed
qed

lemma nested_not_top:
  assumes "wf_names entries" "(d, Dir sub) \<in> set entries" "CHR ''/'' \<notin> set f"
  shows "join folder f \<notin> set (files_below (join folder d) sub)"
proof
  assume m: "join folder f \<in> set (files_below (join folder d) sub)"
  from wf_names_top[OF assms(1,2)] have d: "d \<noteq> []" "CHR ''/'' \<notin> set d" by auto
  have jd: "join folder d = dir_prefix folder @ d" using d(2) by (rule join_name)
  have "join folder d \<noteq> []" using jd d(1) by simp
  moreover have "\<not> endswith (join folder d) ''/''" unfolding jd using d by (rule not_endswith_slash)
  ultimately obtain rest where "join folder f = join folder d @ ''/'' @ rest"
    using files_below_prefix[OF wf_names_sub[OF assms(1,2)] _ _ m] by blast
  then have "dir_prefix folder @ f = dir_prefix folder @ d @ ''/'' @ rest"
    using jd join_name[OF assms(3), of folder] by simp
  then have "f = d @ ''/'' @ rest" by simp
  with assms(3) show False by simp
qed

text \<open>
  Claim C10. The Document Assembler reads the top level of the extraction directory only:
  every page of a document it writes is a regular file of the top level with an image
  extension, and no page is a file found anywhere below a subdirectory. When every entry
  of the top level with an image name is a subdirectory (so all images are nested), the
  assembler returns failure and writes nothing. The names in the directory tree are
  non-empty and hold no slash.
\<close>

theorem only_top_level_images:
  assumes "tree folder = Some entries" and "folder \<noteq> []" and "wf_names entries"
  shows "let res = images_to_pdf tree se folder pdf n
         in (\<forall>pages. PdfSaved pdf pages \<in> set (snd res) \<longrightarrow>
               (\<forall>p \<in> set pages. \<exists>f. (f, File None) \<in> set entries \<and> is_image_name f
                                      \<and> p = join folder f)
             \<and> (\<forall>d sub. (d, Dir sub) \<in> set entries \<longrightarrow>
                   set pages \<inter> set (files_below (join folder d) sub) = {}))
          \<and> ((\<forall>(f, nd) \<in> set entries. is_image_name f \<longrightarrow> (\<exists>sub. nd = Dir sub)) \<longrightarrow>
                fst res = Inr False \<and> list_all quiet_event (snd res))"
proof -
  let ?names = "filter is_image_name (map fst entries)"
  let ?paths = "sort (map (join folder) ?names)"
  let ?imgs = "filter (\<lambda>p. open_image tree folder p = None) ?paths"
  let ?res = "images_to_pdf tree se folder pdf n"
  let ?evs = "snd (open_all (open_image tree folder) ?paths)"
  note r = images_to_pdf_result[where tree = tree and folder = folder and se = se
      and pdf = pdf and n = n, OF assms(1,2)]
  have q: "list_all quiet_event ?evs" by (rule open_all_quiet)
  have nq: "PdfSaved pdf pages \<notin> set ?evs" for pages
    using q by (induction ?evs) (auto simp: list_all_iff)
  have top: "\<exists>f. (f, File None) \<in> set entries \<and> is_image_name f \<and> p = join folder f"
    if "p \<in> set ?imgs" for p
  proof -
    from that obtain f0 where f0: "f0 \<in> set (map fst entries)" "is_image_name f0" "p = join folder f0"
      and o: "open_image tree folder p = None" by auto
    from open_image_None[OF assms(1) o] obtain name where
      nm: "(name, File None) \<in> set entries" "join folder name = p" by blast
    from f0(1) obtain nd0 where "(f0, nd0) \<in> set entries" by auto
    then have "CHR ''/'' \<notin> set f0" using wf_names_top[OF assms(3)] by blast
    moreover have "CHR ''/'' \<notin> set name" using wf_names_top[OF assms(3) nm(1)] by blast
    ultimately have "name = f0" using nm(2) f0(3) join_inject by blast
    with nm f0 show ?thesis by blast
  qed
  have pages_imgs: "pages = ?imgs" if "PdfSaved pdf pages \<in> set (snd ?res)" for pages
    using that nq unfolding r by (auto simp: Let_def split: if_splits option.splits)
  have 1: "\<forall>pages. PdfSaved pdf pages \<in> set (snd ?res) \<longrightarrow>
               (\<forall>p \<in> set pages. \<exists>f. (f, File None) \<in> set entries \<and> is_image_name f
                                      \<and> p = join folder f)
             \<and> (\<forall>d sub. (d, Dir sub) \<in> set entries \<longrightarrow>
                   set pages \<inter> set (files_below (join folder d) sub) = {})"
  proof (intro allI impI conjI ballI)
    fix pages p assume "PdfSaved pdf pages \<in> set (snd ?res)" "p \<in> set pages"
    with pages_imgs top show "\<exists>f. (f, File None) \<in> set entries \<and> is_image_name f
                                      \<and> p = join folder f" by blast
  next
    fix pages d sub assume a: "PdfSaved pdf pages \<in> set (snd ?res)" "(d, Dir sub) \<in> set entries"
    show "set pages \<inter> set (files_below (join folder d) sub) = {}"
    proof (rule ccontr)
      assume "set pages \<inter> set (files_below (join folder d) sub) \<noteq> {}"
      then obtain p where p: "p \<in> set pages" "p \<in> set (files_below (join folder d) sub)" by blast
      with pages_imgs[OF a(1)] top obtain f where
        f: "(f, File None) \<in> set entries" "p = join folder f" by blast
      have "CHR ''/'' \<notin> set f" using wf_names_top[OF assms(3) f(1)] by blast
      from nested_not_top[OF assms(3) a(2) this, of folder] p(2) f(2) show False by simp
    qed
  qed
  have 2: "(\<forall>(f, nd) \<in> set entries. is_image_name f \<longrightarrow> (\<exists>sub. nd = Dir sub)) \<longrightarrow>
                fst ?res = Inr False \<and> list_all quiet_event (snd ?res)"
  proof
    assume h: "\<forall>(f, nd) \<in> set entries. is_image_name f \<longrightarrow> (\<exists>sub. nd = Dir sub)"
    have "?imgs = []"
    proof (rule ccontr)
      assume "?imgs \<noteq> []"
      then obtain p where "p \<in> set ?imgs" by (meson last_in_set)
      from top[OF this] obtain f where "(f, File None) \<in> set entries" "is_image_name f" by blast
      with h show False by auto
    qed
    then show "fst ?res = Inr False \<and> list_all quiet_event (snd ?res)"
      unfolding r using q by (simp add: Let_def)
  qed
  from 1 2 show ?thesis unfolding Let_def by blast
qed

theorem only_top_level_images_witness:
  "fst (images_to_pdf
          (\<lambda>p. Some [(''pages'', Dir [(''c7_p1.jpg'', File None), (''c7_p2.jpg'', File None)])])
          None ''/app/temp_downloads/chapter_7'' ''/out/One Piece - 0007.pdf'' 7) = Inr False
   \<and> files_below (join ''/app/temp_downloads/chapter_7'' ''pages'')
         [(''c7_p1.jpg'', File None), (''c7_p2.jpg'', File None)]
       = [''/app/temp_downloads/chapter_7/pages/c7_p1.jpg'',
          ''/app/temp_downloads/chapter_7/pages/c7_p2.jpg'']"
proof -
  let ?es = "[(''pages'', Dir [(''c7_p1.jpg'', File None), (''c7_p2.jpg'', File None)])]"
  let ?tree = "\<lambda>p::string. Some ?es"
  let ?folder = "''/app/temp_downloads/chapter_7''"
  have a: "?tree ?folder = Some ?es" by simp
  have b: "?folder \<noteq> []" by simp
  have c: "wf_names ?es" by simp
  have d: "\<forall>(f, nd) \<in> set ?es. is_image_name f \<longrightarrow> (\<exists>sub. nd = Dir sub)" by simp
  have e: "files_below (join ?folder ''pages'')
         [(''c7_p1.jpg'', File None), (''c7_p2.jpg'', File None)]
       = [''/app/temp_downloads/chapter_7/pages/c7_p1.jpg'',
          ''/app/temp_downloads/chapter_7/pages/c7_p2.jpg'']" by code_simp
  from only_top_level_images[where tree = ?tree and folder = ?folder and se = None
      and pdf = "''/out/One Piece - 0007.pdf''" and n = 7, OF a b c] d
  have "fst (images_to_pdf ?tree None ?folder ''/out/One Piece - 0007.pdf'' 7) = Inr False"
    unfolding Let_def by blast
  with e show ?thesis by blast
qed

section \<open>The page order on names that match the pattern\<close>

text \<open>
  Claim C2 does not hold of the code. The key function reads chapter and page from a bare
  file name, but the assembler applies it to the full path, where the chapter part never
  parses as a number, so the key is the path string. For a directory holding
  \<open>c1_p2.jpg\<close> and \<open>c1_p10.jpg\<close> the document has page 10 before page 2.
\<close>

theorem page_order_follows_path_strings:
  "sort_key_py ''c1_p2.jpg'' = KTuple 1 2
   \<and> sort_key_py ''c1_p10.jpg'' = KTuple 1 10
   \<and> sort_key_py ''/app/temp_downloads/chapter_1/c1_p2.jpg''
       = KStr ''/app/temp_downloads/chapter_1/c1_p2.jpg''
   \<and> sort_key_py ''/app/temp_downloads/chapter_1/c1_p10.jpg''
       = KStr ''/app/temp_downloads/chapter_1/c1_p10.jpg''
   \<and> images_to_pdf
         (\<lambda>p. Some [(''c1_p2.jpg'', File None), (''c1_p10.jpg'', File None)])
         None ''/app/temp_downloads/chapter_1'' ''/out/One Piece - 0001.pdf'' 1
       = (Inr True,
          [Log INFO (''Converting images in /app/temp_downloads/chapter_1 to PDF: ''
                     @ ''/out/One Piece - 0001.pdf''),
           PdfSaved ''/out/One Piece - 0001.pdf''
             [''/app/temp_downloads/chapter_1/c1_p10.jpg'',
              ''/app/temp_downloads/chapter_1/c1_p2.jpg''],
           Log INFO ''PDF created successfully at: /out/One Piece - 0001.pdf''])"
  by code_simp


end
